theory Spec2Isabelle
  imports Main "HOL-Library.Word"
begin

section \<open>capture-har: data model\<close>

text \<open>
  A shallow embedding of \<^verbatim>\<open>lib/index.js\<close>. JavaScript strings are modelled as
  \<^typ>\<open>string\<close> holding their UTF-8 bytes, so \<^verbatim>\<open>Buffer.byteLength\<close> of a string is its
  \<^const>\<open>length\<close>. A value that may be \<^verbatim>\<open>undefined\<close> or \<^verbatim>\<open>null\<close> is an \<^typ>\<open>'a option\<close>.

  The HAR fields that are produced by collaborators outside this file (cookie lists from
  tough-cookie, header and query lists through \<^verbatim>\<open>querystring\<close>, post data) and the clock
  readings (\<^verbatim>\<open>startedDateTime\<close>, \<^verbatim>\<open>time\<close>, \<^verbatim>\<open>timings\<close>, \<^verbatim>\<open>_remoteAddress\<close>) are not part of
  the model; the constant fields \<^verbatim>\<open>headersSize\<close>, \<^verbatim>\<open>bodySize\<close> and \<^verbatim>\<open>cache\<close> are left out too.
\<close>

type_synonym byte = "8 word"

text \<open>An \<^verbatim>\<open>Error\<close> object, as far as the code reads it: \<^verbatim>\<open>message\<close> and \<^verbatim>\<open>code\<close>.\<close>

record js_error =
  err_message :: string
  err_code :: "string option"

text \<open>
  \<^verbatim>\<open>response.body\<close>: absent, a string, a \<^verbatim>\<open>Buffer\<close>, or any other value. Of another value the
  code only observes its truthiness and its \<^verbatim>\<open>JSON.stringify\<close> text, so it is represented
  by these two.
\<close>

datatype body_value =
    NoBody
  | StrBody string
  | BufBody "byte list"
  | JsonBody bool string

text \<open>The request object of the transport: the fields \<^verbatim>\<open>buildHarRequest\<close> reads here.\<close>

record req_object =
  req_method :: string
  uri_href :: string

text \<open>The response object (an incoming message with the body attached).\<close>

record response =
  statusCode :: int
  statusMessage :: string
  httpVersion :: string
  res_headers :: "(string \<times> string) list"
  body :: body_value
  request :: req_object

text \<open>
  A JavaScript number as far as the code meets one: an integer that a double holds, or an
  infinity. \<^verbatim>\<open>NaN\<close> is \<^const>\<open>None\<close> of \<open>jsnum option\<close>. A finite \<^verbatim>\<open>maxContentLength\<close> is a whole
  number: it is compared with byte counts and parsed lengths only, which are whole, so a
  maximum with a fraction bounds them like its integer part.
\<close>

datatype jsnum = Num int | Infinity | NegInfinity

record har_config =
  withContent :: bool
  maxContentLength :: jsnum

text \<open>The optional argument of \<^verbatim>\<open>captureHar\<close>, before the defaults are merged in.\<close>

record har_options =
  opt_withContent :: "bool option"
  opt_maxContentLength :: "jsnum option"

text \<open>\<^verbatim>\<open>followRedirect\<close>: absent, a boolean, or a predicate over the response.\<close>

datatype follow_redirect =
    FollowAbsent
  | FollowBool bool
  | FollowFn "response \<Rightarrow> bool"

text \<open>
  A header object is held by reference: \<^verbatim>\<open>Object.assign\<close> copies the reference, not the
  object. The store maps addresses to header objects; a header object is a list of
  key/value pairs in key order, a value \<^const>\<open>None\<close> being \<^verbatim>\<open>null\<close>.
\<close>

type_synonym headers_obj = "(string \<times> string option) list"
type_synonym store = "nat \<rightharpoonup> headers_obj"

text \<open>
  The transport takes its target from \<^verbatim>\<open>uri\<close> and, when that is absent or empty, from
  \<^verbatim>\<open>url\<close>; both are options of the caller. \<^verbatim>\<open>maxRedirects\<close> is absent or an integer,
  \<^verbatim>\<open>timeout\<close> is absent or a number of milliseconds, and a function given as
  \<^verbatim>\<open>followRedirect\<close> returns a boolean.
\<close>

record request_config =
  uri :: "string option"
  url :: "string option"
  cfg_method :: "string option"
  headers :: "nat option"
  followRedirect :: follow_redirect
  maxRedirects :: "int option"
  timeout :: "nat option"

datatype request_input = UrlString string | Config request_config

record har_content =
  content_size :: nat
  content_mimeType :: string
  content_text :: "string option"
  content_encoding :: "string option"

record har_request =
  har_method :: string
  har_url :: string
  har_httpVersion :: string

record har_response =
  status :: int
  statusText :: string
  res_httpVersion :: string
  content :: har_content
  redirectURL :: string
  error_ext :: "js_error option"

record har_entry =
  entry_request :: har_request
  entry_response :: har_response

record har_log =
  version :: string
  creator :: "string \<times> string"
  entries :: "har_entry list"

text \<open>
  How a call ends: it throws before it returns a promise, or the promise it returns
  rejects, or the promise resolves. A call whose promise never settles has no outcome.
\<close>

datatype js_exception = TypeError

datatype 'a settle = Throws js_exception | Rejects js_exception | Resolves 'a

section \<open>The collaborators\<close>

text \<open>
  What the network does during one exchange. Either the transport fails before a response
  head arrives, or a head arrives, followed by body chunks and then by the end of the body
  or by a transport error.
\<close>

record response_head =
  head_statusCode :: int
  head_statusMessage :: string
  head_httpVersion :: string
  head_headers :: "(string \<times> string) list"

datatype wire =
    ConnFail js_error
  | Reply response_head "byte list list" "js_error option"

text \<open>
  \<^verbatim>\<open>deadline\<close> places the expiry of the configured timeout among the events of the
  exchange: \<^term>\<open>Some k\<close> when the time is up after \<open>k\<close> events (head, chunks) have been
  delivered and before the next one, \<^const>\<open>None\<close> when the exchange settles first.
\<close>

record exchange_script =
  on_wire :: wire
  deadline :: "nat option"

text \<open>
  The functions this file imports and the network, as parameters:
  \<^item> \<^verbatim>\<open>url_resolve\<close>, \<^verbatim>\<open>url_href\<close>, \<^verbatim>\<open>url_host\<close>: \<^verbatim>\<open>url.resolve(base, location)\<close>, the
    \<^verbatim>\<open>href\<close> of the parsed request URL and \<^verbatim>\<open>url.parse(u).host\<close>;
  \<^item> \<^verbatim>\<open>transformBinaryToUtf8\<close> of \<^verbatim>\<open>./encoding-util\<close>, on a string;
  \<^item> \<^verbatim>\<open>content_type\<close>: \<^verbatim>\<open>contentType.parse(response).type\<close> from the Content-Type header,
    \<^const>\<open>None\<close> when it throws;
  \<^item> \<^verbatim>\<open>materialize\<close>: the body value the transport builds from the received bytes;
  \<^item> \<^verbatim>\<open>network\<close>: the exchange that takes place at a given depth for a given target;
  \<^item> \<^verbatim>\<open>pkg_name\<close>, \<^verbatim>\<open>pkg_version\<close>: \<^verbatim>\<open>package.json\<close>.
\<close>

record env =
  url_resolve :: "string \<Rightarrow> string \<Rightarrow> string"
  url_href :: "string \<Rightarrow> string"
  url_host :: "string \<Rightarrow> string option"
  transformBinaryToUtf8 :: "string \<Rightarrow> string"
  content_type :: "string option \<Rightarrow> string option"
  materialize :: "byte list \<Rightarrow> body_value"
  network :: "nat \<Rightarrow> string \<Rightarrow> exchange_script"
  pkg_name :: string
  pkg_version :: string

section \<open>Base64\<close>

text \<open>
  \<^verbatim>\<open>Buffer.prototype.toString('base64')\<close>: three bytes become four characters of the
  standard alphabet, the last group is padded with \<^verbatim>\<open>=\<close>. \<^verbatim>\<open>base64_decode\<close> is the inverse
  direction, \<^verbatim>\<open>Buffer.from(text, 'base64')\<close>, on padded text.
\<close>

definition base64_alphabet :: string where
  "base64_alphabet = ''ABCDEFGHIJKLMNOPQRSTUVWXYZabcdefghijklmnopqrstuvwxyz0123456789+/''"

definition sextet_char :: "nat \<Rightarrow> char" where
  "sextet_char n = base64_alphabet ! n"

fun index_of :: "'a \<Rightarrow> 'a list \<Rightarrow> nat" where
  "index_of x [] = 0"
| "index_of x (y # ys) = (if x = y then 0 else Suc (index_of x ys))"

definition char_sextet :: "char \<Rightarrow> nat" where
  "char_sextet c = index_of c base64_alphabet"

fun base64_encode :: "byte list \<Rightarrow> string" where
  "base64_encode [] = []"
| "base64_encode [a] =
     [sextet_char (unat a div 4), sextet_char ((unat a mod 4) * 16), CHR ''='', CHR ''='']"
| "base64_encode [a, b] =
     [sextet_char (unat a div 4), sextet_char ((unat a mod 4) * 16 + unat b div 16),
      sextet_char ((unat b mod 16) * 4), CHR ''='']"
| "base64_encode (a # b # c # bs) =
     [sextet_char (unat a div 4), sextet_char ((unat a mod 4) * 16 + unat b div 16),
      sextet_char ((unat b mod 16) * 4 + unat c div 64), sextet_char (unat c mod 64)]
     @ base64_encode bs"

fun base64_decode :: "string \<Rightarrow> byte list" where
  "base64_decode (c1 # c2 # c3 # c4 # cs) =
     (let i1 = char_sextet c1; i2 = char_sextet c2; i3 = char_sextet c3; i4 = char_sextet c4
      in if c3 = CHR ''='' then [of_nat (i1 * 4 + i2 div 16)]
         else if c4 = CHR ''='' then
           [of_nat (i1 * 4 + i2 div 16), of_nat ((i2 mod 16) * 16 + i3 div 4)]
         else of_nat (i1 * 4 + i2 div 16) # of_nat ((i2 mod 16) * 16 + i3 div 4)
              # of_nat ((i3 mod 4) * 64 + i4) # base64_decode cs)"
| "base64_decode cs = []"

section \<open>HAR entry builder\<close>

text \<open>\<^verbatim>\<open>String.prototype.toUpperCase\<close> and \<^verbatim>\<open>toLowerCase\<close> on the ASCII letters.\<close>

definition toUpperCase :: "string \<Rightarrow> string" where
  "toUpperCase s =
     map (\<lambda>c. case map_of (zip ''abcdefghijklmnopqrstuvwxyz'' ''ABCDEFGHIJKLMNOPQRSTUVWXYZ'') c of
                 Some d \<Rightarrow> d | None \<Rightarrow> c) s"

definition toLowerCase :: "string \<Rightarrow> string" where
  "toLowerCase s =
     map (\<lambda>c. case map_of (zip ''ABCDEFGHIJKLMNOPQRSTUVWXYZ'' ''abcdefghijklmnopqrstuvwxyz'') c of
                 Some d \<Rightarrow> d | None \<Rightarrow> c) s"

definition parseHttpVersion :: "response option \<Rightarrow> string" where
  "parseHttpVersion res =
     (case res of
        None \<Rightarrow> ''unknown''
      | Some r \<Rightarrow> if httpVersion r = [] then ''unknown'' else ''HTTP/'' @ httpVersion r)"

definition parseRedirectUrl :: "env \<Rightarrow> response option \<Rightarrow> string" where
  "parseRedirectUrl E res =
     (case res of
        None \<Rightarrow> []
      | Some r \<Rightarrow>
          if 300 \<le> statusCode r \<and> statusCode r < 400 then
            (case map_option (transformBinaryToUtf8 E) (map_of (res_headers r) ''location'') of
               None \<Rightarrow> []
             | Some location \<Rightarrow>
                 if location = [] then []
                 else url_resolve E (uri_href (request r)) location)
          else [])"

definition getMimeType :: "env \<Rightarrow> (string \<times> string) list \<Rightarrow> string" where
  "getMimeType E hs =
     (case content_type E (map_of hs ''content-type'') of
        Some t \<Rightarrow> t
      | None \<Rightarrow> ''x-unknown'')"

text \<open>The truthiness of \<^verbatim>\<open>response.body\<close>: an empty string is falsy, a Buffer never is.\<close>

fun body_truthy :: "body_value \<Rightarrow> bool" where
  "body_truthy NoBody = False"
| "body_truthy (StrBody s) = (s \<noteq> [])"
| "body_truthy (BufBody bs) = True"
| "body_truthy (JsonBody t s) = t"

definition buildHarContent :: "env \<Rightarrow> response option \<Rightarrow> har_config \<Rightarrow> har_content" where
  "buildHarContent E res harConfig =
     (case res of
        None \<Rightarrow>
          \<lparr>content_size = 0, content_mimeType = ''x-unknown'',
           content_text = None, content_encoding = None\<rparr>
      | Some r \<Rightarrow>
          let harContent =
                \<lparr>content_size = 0, content_mimeType = getMimeType E (res_headers r),
                 content_text = None, content_encoding = None\<rparr>;
              harContent =
                (if withContent harConfig \<and> body_truthy (body r) then
                   (case body r of
                      StrBody s \<Rightarrow> harContent\<lparr>content_text := Some s\<rparr>
                    | BufBody bs \<Rightarrow>
                        harContent\<lparr>content_text := Some (base64_encode bs),
                                    content_encoding := Some ''base64''\<rparr>
                    | JsonBody t s \<Rightarrow>
                        harContent\<lparr>content_text := Some s, content_encoding := Some ''utf8''\<rparr>
                    | NoBody \<Rightarrow> harContent)
                 else harContent)
          in harContent\<lparr>content_size :=
               (case body r of
                  StrBody s \<Rightarrow> length s
                | BufBody bs \<Rightarrow> length bs
                | _ \<Rightarrow>
                    (case content_text harContent of
                       Some t \<Rightarrow> if t \<noteq> [] then length t else 0
                     | None \<Rightarrow> 0))\<rparr>)"

definition buildHarRequest :: "req_object \<Rightarrow> har_request" where
  "buildHarRequest req =
     \<lparr>har_method = toUpperCase (req_method req), har_url = uri_href req,
      har_httpVersion = ''HTTP/1.1''\<rparr>"

definition buildHarResponse ::
  "env \<Rightarrow> js_error option \<Rightarrow> response option \<Rightarrow> har_config \<Rightarrow> har_response" where
  "buildHarResponse E error res harConfig =
     \<lparr>status = (case res of
                  None \<Rightarrow> - 1
                | Some r \<Rightarrow> if statusCode r = 0 then - 1 else statusCode r),
      statusText = (case res of None \<Rightarrow> [] | Some r \<Rightarrow> statusMessage r),
      res_httpVersion = parseHttpVersion res,
      content = buildHarContent E res harConfig,
      redirectURL = parseRedirectUrl E res,
      error_ext =
        (case error of
           None \<Rightarrow> None
         | Some e \<Rightarrow> Some \<lparr>err_message = err_message e, err_code = err_code e\<rparr>)\<rparr>"

definition buildHarEntry ::
  "env \<Rightarrow> req_object \<Rightarrow> js_error option \<Rightarrow> response option \<Rightarrow> har_config \<Rightarrow> har_entry" where
  "buildHarEntry E req error res harConfig =
     \<lparr>entry_request = buildHarRequest req,
      entry_response = buildHarResponse E error res harConfig\<rparr>"

section \<open>Entry capture\<close>

text \<open>
  Numbers are doubles. \<open>round_double n\<close> is the double nearest to the natural number \<open>n\<close>:
  \<open>n\<close> itself up to \<open>2^53\<close>, above that the nearest multiple of the unit in the last place
  of a 53-bit significand, ties to the even significand, and \<^verbatim>\<open>Infinity\<close> from \<open>2^1024\<close> on.
\<close>

function ulp :: "nat \<Rightarrow> nat \<Rightarrow> nat" where
  "ulp n u = (if u = 0 \<or> n < 9007199254740992 * u then u else ulp n (2 * u))"
  by pat_completeness auto
termination
  by (relation "measure (\<lambda>(n, u). Suc n - 9007199254740992 * u)") auto

definition round_double :: "nat \<Rightarrow> jsnum" where
  "round_double n =
     (let u = ulp n 1; q = n div u; r = n mod u;
          q' = (if u < 2 * r \<or> (2 * r = u \<and> odd q) then Suc q else q)
      in if 2 ^ 1024 \<le> q' * u then Infinity else Num (int (q' * u)))"

definition round_double_int :: "int \<Rightarrow> jsnum" where
  "round_double_int i =
     (if 0 \<le> i then round_double (nat i)
      else (case round_double (nat (- i)) of
              Num v \<Rightarrow> Num (- v)
            | Infinity \<Rightarrow> NegInfinity
            | NegInfinity \<Rightarrow> Infinity))"

text \<open>\<^verbatim>\<open>bufferLenght += buffer.length\<close>.\<close>

fun js_add :: "jsnum \<Rightarrow> nat \<Rightarrow> jsnum" where
  "js_add (Num a) n = round_double_int (a + int n)"
| "js_add Infinity n = Infinity"
| "js_add NegInfinity n = NegInfinity"

text \<open>
  \<^verbatim>\<open>parseInt(s, 10)\<close>: leading white space, an optional sign, then decimal digits, read as
  a double; \<^const>\<open>None\<close> is \<^verbatim>\<open>NaN\<close> (no digit, or no header at all). The white space is
  that of the language among the characters of a header: space, tab, the line and page
  breaks, and the no-break space. The digits are read as the double nearest to the number
  they write (beyond 20 digits the language leaves the rounding to the engine).
\<close>

definition is_space :: "char \<Rightarrow> bool" where
  "is_space c =
     (c \<in> set [CHR '' '', CHR 0x09, CHR 0x0A, CHR 0x0B, CHR 0x0C, CHR 0x0D, CHR 0xA0])"

definition digit_of :: "char \<Rightarrow> nat option" where
  "digit_of c = (let i = index_of c ''0123456789'' in if i < 10 then Some i else None)"

fun leading_digits :: "nat option \<Rightarrow> string \<Rightarrow> nat option" where
  "leading_digits acc [] = acc"
| "leading_digits acc (c # cs) =
     (case digit_of c of
        None \<Rightarrow> acc
      | Some d \<Rightarrow> leading_digits (Some ((case acc of None \<Rightarrow> 0 | Some a \<Rightarrow> a) * 10 + d)) cs)"

definition parseInt :: "string option \<Rightarrow> jsnum option" where
  "parseInt v =
     (case v of
        None \<Rightarrow> None
      | Some s \<Rightarrow>
          (case dropWhile is_space s of
             [] \<Rightarrow> None
           | c # cs \<Rightarrow>
               if c = CHR ''-'' then
                 map_option (\<lambda>n. round_double_int (- int n)) (leading_digits None cs)
               else if c = CHR ''+'' then map_option round_double (leading_digits None cs)
               else map_option round_double (leading_digits None (c # cs))))"

text \<open>\<^verbatim>\<open>a > b\<close> where \<open>a\<close> may be \<^verbatim>\<open>NaN\<close>; \<^verbatim>\<open>Number.isFinite\<close>.\<close>

fun js_gt :: "jsnum option \<Rightarrow> jsnum \<Rightarrow> bool" where
  "js_gt None m = False"
| "js_gt (Some (Num n)) (Num m) = (n > m)"
| "js_gt (Some (Num n)) Infinity = False"
| "js_gt (Some (Num n)) NegInfinity = True"
| "js_gt (Some Infinity) Infinity = False"
| "js_gt (Some Infinity) m = True"
| "js_gt (Some NegInfinity) m = False"

fun isFinite :: "jsnum \<Rightarrow> bool" where
  "isFinite (Num m) = True"
| "isFinite m = False"

definition size_error :: js_error where
  "size_error =
     \<lparr>err_message = ''Maximum response size exceeded'', err_code = Some ''MAX_RES_BODY_SIZE''\<rparr>"

definition timeout_error :: js_error where
  "timeout_error = \<lparr>err_message = ''global ETIMEDOUT'', err_code = Some ''ETIMEDOUT''\<rparr>"

text \<open>
  The listener for \<^verbatim>\<open>'response'\<close>: destroy the response when content is not wanted,
  abort with the size error when the declared Content-Length is over the maximum.
\<close>

datatype head_action = Destroy | AbortWith js_error | Continue

definition onResponse :: "har_config \<Rightarrow> response_head \<Rightarrow> head_action" where
  "onResponse harConfig res =
     (if \<not> withContent harConfig then Destroy
      else if js_gt (parseInt (map_of (head_headers res) ''content-length''))
                    (maxContentLength harConfig)
      then AbortWith size_error
      else Continue)"

text \<open>
  The listener for \<^verbatim>\<open>'data'\<close>, installed only when content is wanted and the maximum is
  finite: it adds the chunk to the running count and aborts when the count is over the
  maximum.
\<close>

definition data_listener :: "har_config \<Rightarrow> bool" where
  "data_listener harConfig = (withContent harConfig \<and> isFinite (maxContentLength harConfig))"

definition onData :: "har_config \<Rightarrow> jsnum \<Rightarrow> byte list \<Rightarrow> jsnum \<times> js_error option" where
  "onData harConfig bufferLenght buffer =
     (let bufferLenght = js_add bufferLenght (length buffer)
      in (bufferLenght,
          if js_gt (Some bufferLenght) (maxContentLength harConfig)
          then Some size_error else None))"

text \<open>
  The transport (request-promise with \<^verbatim>\<open>resolveWithFullResponse\<close>, \<^verbatim>\<open>simple: false\<close>) drives the
  listeners over the events of the exchange. The first error emitted on the request
  object settles the promise: it rejects with that error as \<^verbatim>\<open>cause\<close> and with no
  response. Without an error it resolves with the response, whose body is built from the
  chunks that were read.
\<close>

record rejection =
  cause :: js_error
  rej_response :: "response option"

datatype settled = Resolved response | Rejected rejection

text \<open>How the body ends: it is complete, an error is emitted, or the timer expires first.\<close>

datatype stream_end = Ended | Failed js_error | Expired

fun stream ::
  "har_config \<Rightarrow> nat option \<Rightarrow> jsnum \<Rightarrow> byte list list \<Rightarrow> js_error option \<Rightarrow> stream_end" where
  "stream harConfig timer bufferLenght [] tail =
     (if timer = Some 0 then Expired else case tail of None \<Rightarrow> Ended | Some e \<Rightarrow> Failed e)"
| "stream harConfig timer bufferLenght (buffer # rest) tail =
     (if timer = Some 0 then Expired
      else if data_listener harConfig then
        (case onData harConfig bufferLenght buffer of
           (n, Some e) \<Rightarrow> Failed e
         | (n, None) \<Rightarrow> stream harConfig (map_option (\<lambda>k. k - 1) timer) n rest tail)
      else stream harConfig (map_option (\<lambda>k. k - 1) timer) bufferLenght rest tail)"

definition mk_response :: "response_head \<Rightarrow> body_value \<Rightarrow> req_object \<Rightarrow> response" where
  "mk_response h b req =
     \<lparr>statusCode = head_statusCode h, statusMessage = head_statusMessage h,
      httpVersion = head_httpVersion h, res_headers = head_headers h, body = b,
      request = req\<rparr>"

text \<open>
  The timer exists only when \<^verbatim>\<open>options.timeout\<close> is a number. When it expires before the
  exchange has settled, its callback aborts the request and emits the timeout error, which
  settles the promise like any other error.
\<close>

definition globalTimeout :: "request_config \<Rightarrow> exchange_script \<Rightarrow> nat option" where
  "globalTimeout options sc = (if timeout options = None then None else deadline sc)"

definition request_promise ::
  "env \<Rightarrow> request_config \<Rightarrow> har_config \<Rightarrow> req_object \<Rightarrow> exchange_script \<Rightarrow> settled" where
  "request_promise E options harConfig reqObject sc =
     (let timer = globalTimeout options sc in
      if timer = Some 0 then Rejected \<lparr>cause = timeout_error, rej_response = None\<rparr>
      else
        (case on_wire sc of
           ConnFail e \<Rightarrow> Rejected \<lparr>cause = e, rej_response = None\<rparr>
         | Reply h chunks tail \<Rightarrow>
             (case onResponse harConfig h of
                Destroy \<Rightarrow> Resolved (mk_response h (materialize E []) reqObject)
              | AbortWith e \<Rightarrow> Rejected \<lparr>cause = e, rej_response = None\<rparr>
              | Continue \<Rightarrow>
                  (case stream harConfig (map_option (\<lambda>k. k - 1) timer) (Num 0) chunks tail of
                     Expired \<Rightarrow> Rejected \<lparr>cause = timeout_error, rej_response = None\<rparr>
                   | Failed e \<Rightarrow> Rejected \<lparr>cause = e, rej_response = None\<rparr>
                   | Ended \<Rightarrow>
                       Resolved (mk_response h (materialize E (concat chunks)) reqObject)))))"

text \<open>
  The timer once the exchange is over. The timer is cleared by the listener for \<^verbatim>\<open>'end'\<close>
  on the request object and by nothing else. The transport emits \<^verbatim>\<open>'end'\<close> when the body of
  a response that has arrived ends or the response is closed (destroyed or aborted); when
  it fails before any response head, it emits \<^verbatim>\<open>'error'\<close> only. So after the exchange the
  timer has expired already, or a response had arrived and the listener has cleared it,
  or no response arrived and it is still armed: its callback runs later, on a request
  whose promise has settled.
\<close>

datatype timer_state = NoTimer | Fired | Cleared | Armed

definition timer_after ::
  "request_config \<Rightarrow> har_config \<Rightarrow> exchange_script \<Rightarrow> timer_state" where
  "timer_after options harConfig sc =
     (if timeout options = None then NoTimer
      else if deadline sc = Some 0 then Fired
      else
        (case on_wire sc of
           ConnFail e \<Rightarrow> Armed
         | Reply h chunks tail \<Rightarrow>
             (case onResponse harConfig h of
                Continue \<Rightarrow>
                  (case stream harConfig (map_option (\<lambda>k. k - 1) (deadline sc)) (Num 0)
                          chunks tail of
                     Expired \<Rightarrow> Fired
                   | _ \<Rightarrow> Cleared)
              | _ \<Rightarrow> Cleared)))"

text \<open>
  The target of the request: \<^verbatim>\<open>uri\<close> when it is a non-empty string, else \<^verbatim>\<open>url\<close> when that
  is one. Without a target the transport leaves \<^verbatim>\<open>reqObject.uri\<close> undefined.
\<close>

definition request_target :: "request_config \<Rightarrow> string option" where
  "request_target options =
     (case uri options of
        Some u \<Rightarrow> if u \<noteq> [] then Some u
                  else (case url options of Some v \<Rightarrow> if v \<noteq> [] then Some v else None
                                          | None \<Rightarrow> None)
      | None \<Rightarrow> (case url options of Some v \<Rightarrow> if v \<noteq> [] then Some v else None
                                   | None \<Rightarrow> None))"

text \<open>
  \<^verbatim>\<open>captureEntry\<close>: the request object, the error or \<^verbatim>\<open>null\<close>, and the response or
  \<^verbatim>\<open>undefined\<close>. The exchange script stands for what the network does while it runs. The
  wrapped \<^verbatim>\<open>lookup\<close> and the remote address are left out together with \<^verbatim>\<open>_remoteAddress\<close>.
  Reading \<^verbatim>\<open>reqObject.uri.hostname\<close> throws a \<^verbatim>\<open>TypeError\<close> when there is no target.
\<close>

definition captureEntry ::
  "env \<Rightarrow> request_config \<Rightarrow> har_config \<Rightarrow> exchange_script
   \<Rightarrow> js_exception + req_object \<times> js_error option \<times> response option" where
  "captureEntry E requestConfig harConfig sc =
     (case request_target requestConfig of
        None \<Rightarrow> Inl TypeError
      | Some target \<Rightarrow>
          let reqObject =
                \<lparr>req_method = (case cfg_method requestConfig of None \<Rightarrow> ''GET'' | Some m \<Rightarrow> m),
                 uri_href = url_href E target\<rparr>
          in case request_promise E requestConfig harConfig reqObject sc of
               Resolved res \<Rightarrow> Inr (reqObject, None, Some res)
             | Rejected error \<Rightarrow> Inr (reqObject, Some (cause error), rej_response error))"

section \<open>Redirect orchestrator\<close>

definition nolocation_error :: js_error where
  "nolocation_error = \<lparr>err_message = ''Missing location header'', err_code = Some ''NOLOCATION''\<rparr>"

definition maxredirects_error :: js_error where
  "maxredirects_error =
     \<lparr>err_message = ''Max redirects exceeded'', err_code = Some ''MAXREDIRECTS''\<rparr>"

definition shouldRedirect ::
  "env \<Rightarrow> response option \<Rightarrow> request_config \<Rightarrow> nat \<Rightarrow> bool \<times> js_error option" where
  "shouldRedirect E res requestConfig depth =
     (case res of
        None \<Rightarrow> (False, None)
      | Some r \<Rightarrow>
          if statusCode r < 300 \<or> statusCode r \<ge> 400 then (False, None)
          else if parseRedirectUrl E res = [] then (False, Some nolocation_error)
          else
            (case followRedirect requestConfig of
               FollowBool False \<Rightarrow> (False, None)
             | FollowFn f \<Rightarrow> (f r, None)
             | _ \<Rightarrow>
                 if int depth > (case maxRedirects requestConfig of None \<Rightarrow> 10 | Some m \<Rightarrow> m)
                 then (False, Some maxredirects_error)
                 else (True, None)))"

definition getCustomHostHeaderName :: "store \<Rightarrow> request_config \<Rightarrow> string option" where
  "getCustomHostHeaderName st requestConfig =
     (case headers requestConfig of
        None \<Rightarrow> None
      | Some a \<Rightarrow>
          (case st a of
             None \<Rightarrow> None
           | Some obj \<Rightarrow> find (\<lambda>key. toLowerCase key = ''host'') (map fst obj)))"

text \<open>\<^verbatim>\<open>obj[key] = v\<close> through a reference, for a key the object has.\<close>

definition set_header :: "store \<Rightarrow> nat option \<Rightarrow> string \<Rightarrow> string option \<Rightarrow> store" where
  "set_header st ref key v =
     (case ref of
        None \<Rightarrow> st
      | Some a \<Rightarrow>
          (case st a of
             None \<Rightarrow> st
           | Some obj \<Rightarrow> st(a \<mapsto> map (\<lambda>(k, w). if k = key then (k, v) else (k, w)) obj)))"

text \<open>
  The exchange of a hop: what the network does at this depth for the target of the
  configuration.
\<close>

definition exchange_of :: "env \<Rightarrow> request_config \<Rightarrow> nat \<Rightarrow> exchange_script" where
  "exchange_of E requestConfig depth =
     network E depth (case request_target requestConfig of None \<Rightarrow> [] | Some t \<Rightarrow> t)"

text \<open>
  One hop of \<^verbatim>\<open>captureEntries\<close>: the entry, and for a redirect that is followed the
  configuration of the next hop with the store as the hop leaves it; or the exception
  that \<^verbatim>\<open>captureEntry\<close> throws.
\<close>

definition hop ::
  "env \<Rightarrow> request_config \<Rightarrow> har_config \<Rightarrow> store \<Rightarrow> nat
   \<Rightarrow> js_exception + har_entry \<times> (request_config \<times> store) option" where
  "hop E requestConfig harConfig st depth =
     (case captureEntry E requestConfig harConfig (exchange_of E requestConfig depth) of
        Inl x \<Rightarrow> Inl x
      | Inr (reqObject, err, res) \<Rightarrow>
          (case shouldRedirect E res requestConfig depth of
             (isRedirect, redirectError) \<Rightarrow>
               let error = (case err of Some e \<Rightarrow> Some e | None \<Rightarrow> redirectError);
                   req = (case res of Some r \<Rightarrow> request r | None \<Rightarrow> reqObject);
                   entry = buildHarEntry E req error res harConfig
               in if isRedirect then
                    let redirectConfig =
                          requestConfig\<lparr>url := Some (redirectURL (entry_response entry))\<rparr>
                    in (case getCustomHostHeaderName st requestConfig of
                          Some customHostHeaderName \<Rightarrow>
                            Inr (entry,
                                 Some (redirectConfig,
                                       set_header st (headers redirectConfig) customHostHeaderName
                                         (url_host E (redirectURL (entry_response entry)))))
                        | None \<Rightarrow> Inr (entry, Some (redirectConfig, st)))
                  else Inr (entry, None)))"

text \<open>
  The entries of the later hops behind the entry of this one. What a later hop throws
  is thrown inside a \<^verbatim>\<open>then\<close> callback, so it rejects the promise.
\<close>

fun prepend_entry ::
  "har_entry \<Rightarrow> (har_entry list \<times> store) settle \<Rightarrow> (har_entry list \<times> store) settle" where
  "prepend_entry entry (Throws x) = Rejects x"
| "prepend_entry entry (Rejects x) = Rejects x"
| "prepend_entry entry (Resolves (es, st)) = Resolves (entry # es, st)"

partial_function (option) captureEntries ::
  "env \<Rightarrow> request_config \<Rightarrow> har_config \<Rightarrow> store \<Rightarrow> nat
   \<Rightarrow> (har_entry list \<times> store) settle option" where
  "captureEntries E requestConfig harConfig st depth =
     (case hop E requestConfig harConfig st depth of
        Inl x \<Rightarrow> Some (Throws x)
      | Inr (entry, None) \<Rightarrow> Some (Resolves ([entry], st))
      | Inr (entry, Some (redirectConfig, st')) \<Rightarrow>
          Option.bind (captureEntries E redirectConfig harConfig st' (depth + 1))
            (\<lambda>r. Some (prepend_entry entry r)))"

section \<open>Capture coordinator\<close>

definition buildHarConfig :: "har_options \<Rightarrow> har_config" where
  "buildHarConfig harConfig =
     \<lparr>withContent = (case opt_withContent harConfig of None \<Rightarrow> True | Some b \<Rightarrow> b),
      maxContentLength =
        (case opt_maxContentLength harConfig of None \<Rightarrow> Infinity | Some m \<Rightarrow> m)\<rparr>"

definition buildRequestConfig :: "request_input \<Rightarrow> request_config" where
  "buildRequestConfig requestConfig =
     (case requestConfig of
        UrlString u \<Rightarrow>
          \<lparr>uri = None, url = Some u, cfg_method = None, headers = None, followRedirect = FollowAbsent,
           maxRedirects = None, timeout = None\<rparr>
      | Config c \<Rightarrow> c)"

definition captureHar ::
  "env \<Rightarrow> request_input \<Rightarrow> har_options \<Rightarrow> store \<Rightarrow> (har_log \<times> store) settle option" where
  "captureHar E requestConfig harConfig st =
     (case captureEntries E (buildRequestConfig requestConfig) (buildHarConfig harConfig) st 1 of
        None \<Rightarrow> None
      | Some (Throws x) \<Rightarrow> Some (Throws x)
      | Some (Rejects x) \<Rightarrow> Some (Rejects x)
      | Some (Resolves (es, st')) \<Rightarrow>
          Some (Resolves
                  (\<lparr>version = ''1.2'', creator = (pkg_name E, pkg_version E), entries = es\<rparr>,
                   st')))"

section \<open>Chains of hops\<close>

text \<open>
  The vocabulary of the properties below. \<open>hop_state \<dots> k\<close> is the configuration and the
  store with which hop number \<open>k\<close> (counted from 0) starts, provided the \<open>k\<close> hops before
  it were all followed redirects; \<open>hop_entry \<dots> k\<close> is the entry that hop builds; a chain
  \<open>stops_after\<close> \<open>n\<close> redirects when \<open>n\<close> hops are followed and the next one is not.
\<close>

fun hop_state ::
  "env \<Rightarrow> har_config \<Rightarrow> request_config \<Rightarrow> store \<Rightarrow> nat \<Rightarrow> nat
   \<Rightarrow> (request_config \<times> store) option" where
  "hop_state E harConfig cfg st depth 0 = Some (cfg, st)"
| "hop_state E harConfig cfg st depth (Suc k) =
     (case hop E cfg harConfig st depth of
        Inr (entry, Some (cfg', st')) \<Rightarrow> hop_state E harConfig cfg' st' (Suc depth) k
      | _ \<Rightarrow> None)"

definition hop_entry ::
  "env \<Rightarrow> har_config \<Rightarrow> request_config \<Rightarrow> store \<Rightarrow> nat \<Rightarrow> nat \<Rightarrow> har_entry option" where
  "hop_entry E harConfig cfg st depth k =
     (case hop_state E harConfig cfg st depth k of
        None \<Rightarrow> None
      | Some (c, s) \<Rightarrow>
          (case hop E c harConfig s (depth + k) of
             Inr (entry, n) \<Rightarrow> Some entry
           | Inl x \<Rightarrow> None))"

definition stops_after ::
  "env \<Rightarrow> har_config \<Rightarrow> request_config \<Rightarrow> store \<Rightarrow> nat \<Rightarrow> nat \<Rightarrow> bool" where
  "stops_after E harConfig cfg st depth n =
     (case hop_state E harConfig cfg st depth n of
        None \<Rightarrow> False
      | Some (c, s) \<Rightarrow>
          (case hop E c harConfig s (depth + n) of
             Inr (entry, None) \<Rightarrow> True
           | _ \<Rightarrow> False))"

text \<open>
  \<open>delivered options sc k\<close>: the response head and the first \<open>k\<close> chunks of the exchange
  arrive before the timer of the exchange, if there is one, expires.
\<close>

definition delivered :: "request_config \<Rightarrow> exchange_script \<Rightarrow> nat \<Rightarrow> bool" where
  "delivered options sc k = (case globalTimeout options sc of None \<Rightarrow> True | Some t \<Rightarrow> k < t)"

text \<open>The value of \<^verbatim>\<open>bufferLenght\<close> after the listener for \<^verbatim>\<open>'data'\<close> has seen the chunks.\<close>

fun running_count :: "jsnum \<Rightarrow> byte list list \<Rightarrow> jsnum" where
  "running_count bufferLenght [] = bufferLenght"
| "running_count bufferLenght (buffer # rest) =
     running_count (js_add bufferLenght (length buffer)) rest"

text \<open>The decimal numeral of a natural number, as a Content-Length header declares it.\<close>

fun decimal :: "nat \<Rightarrow> string" where
  "decimal n =
     (if n < 10 then [''0123456789'' ! n]
      else decimal (n div 10) @ [''0123456789'' ! (n mod 10)])"

declare decimal.simps [simp del]

section \<open>An example environment\<close>

text \<open>
  A small network for the concrete instances below: \<^verbatim>\<open>a.example\<close> redirects to
  \<^verbatim>\<open>b.example\<close>, which answers with three bytes in two chunks; \<^verbatim>\<open>c.example\<close> redirects to a
  host that refuses the connection; \<^verbatim>\<open>loop.example\<close> redirects to itself;
  \<^verbatim>\<open>noloc.example\<close> answers 302 without a Location header; \<^verbatim>\<open>stream.example\<close> sends three
  bytes without declaring a length; \<^verbatim>\<open>huge.example\<close> declares a length of \<open>2^53 + 1\<close>. Every
  Location is absolute, so resolving it gives the location itself.
\<close>

definition ex_head :: "int \<Rightarrow> string \<Rightarrow> (string \<times> string) list \<Rightarrow> response_head" where
  "ex_head c m hs =
     \<lparr>head_statusCode = c, head_statusMessage = m, head_httpVersion = ''1.1'', head_headers = hs\<rparr>"

definition ex_network :: "nat \<Rightarrow> string \<Rightarrow> exchange_script" where
  "ex_network depth u =
     \<lparr>on_wire =
        (if u = ''http://a.example/'' then
           Reply (ex_head 302 ''Found'' [(''location'', ''http://b.example/'')]) [] None
         else if u = ''http://b.example/'' then
           Reply (ex_head 200 ''OK'' [(''content-type'', ''image/png''), (''content-length'', ''3'')])
             [[0x4D, 0x61], [0x6E]] None
         else if u = ''http://c.example/'' then
           Reply (ex_head 301 ''Moved'' [(''location'', ''http://down.example/'')]) [] None
         else if u = ''http://loop.example/'' then
           Reply (ex_head 302 ''Found'' [(''location'', ''http://loop.example/'')]) [] None
         else if u = ''http://noloc.example/'' then
           Reply (ex_head 302 ''Found'' []) [] None
         else if u = ''http://stream.example/'' then
           Reply (ex_head 200 ''OK'' []) [[0x4D, 0x61], [0x6E]] None
         else if u = ''http://huge.example/'' then
           Reply (ex_head 200 ''OK'' [(''content-length'', ''9007199254740993'')])
             [[0x4D, 0x61], [0x6E]] None
         else ConnFail \<lparr>err_message = ''connect ECONNREFUSED'', err_code = Some ''ECONNREFUSED''\<rparr>),
      deadline = None\<rparr>"

definition ex_host :: "string \<Rightarrow> string option" where
  "ex_host u = Some (takeWhile (\<lambda>c. c \<noteq> CHR ''/'') (drop 7 u))"

definition ex_env :: env where
  "ex_env =
     \<lparr>url_resolve = (\<lambda>base location. location), url_href = (\<lambda>u. u), url_host = ex_host,
      transformBinaryToUtf8 = (\<lambda>s. s), content_type = (\<lambda>h. h), materialize = BufBody,
      network = ex_network, pkg_name = ''capture-har'', pkg_version = ''1.0.0''\<rparr>"

definition ex_config :: "string \<Rightarrow> request_config" where
  "ex_config u =
     \<lparr>uri = None, url = Some u, cfg_method = None, headers = None,
      followRedirect = FollowAbsent, maxRedirects = None, timeout = None\<rparr>"

definition ex_options :: har_options where
  "ex_options = \<lparr>opt_withContent = None, opt_maxContentLength = None\<rparr>"

section \<open>Basic facts about hops and chains\<close>

lemma captureEntries_throw:
  assumes "hop E cfg hc st d = Inl x"
  shows "captureEntries E cfg hc st d = Some (Throws x)"
  using assms by (subst captureEntries.simps) simp

lemma captureEntries_stop:
  assumes "hop E cfg hc st d = Inr (e, None)"
  shows "captureEntries E cfg hc st d = Some (Resolves ([e], st))"
  using assms by (subst captureEntries.simps) simp

lemma captureEntries_follow:
  assumes "hop E cfg hc st d = Inr (e, Some (cfg', st'))"
  shows "captureEntries E cfg hc st d =
     Option.bind (captureEntries E cfg' hc st' (Suc d)) (\<lambda>r. Some (prepend_entry e r))"
  using assms by (subst captureEntries.simps) simp

lemma stops_after_0:
  "stops_after E hc cfg st d 0 = (\<exists>e. hop E cfg hc st d = Inr (e, None))"
  by (auto simp: stops_after_def split: sum.splits option.splits prod.splits)

lemma stops_after_Suc:
  "stops_after E hc cfg st d (Suc n) =
     (\<exists>e c s. hop E cfg hc st d = Inr (e, Some (c, s)) \<and> stops_after E hc c s (Suc d) n)"
  by (auto simp: stops_after_def split: sum.splits option.splits prod.splits)

lemma hop_entry_0:
  "hop E cfg hc st d = Inr (e, n) \<Longrightarrow> hop_entry E hc cfg st d 0 = Some e"
  by (simp add: hop_entry_def)

lemma hop_entry_Suc:
  "hop E cfg hc st d = Inr (e, Some (c, s)) \<Longrightarrow>
   hop_entry E hc cfg st d (Suc k) = hop_entry E hc c s (Suc d) k"
  by (simp add: hop_entry_def split: option.splits)

lemma hop_state_Suc:
  "hop E cfg hc st d = Inr (e, Some (c, s)) \<Longrightarrow>
   hop_state E hc cfg st d (Suc k) = hop_state E hc c s (Suc d) k"
  by simp

lemma chain_result:
  "stops_after E hc cfg st d n \<Longrightarrow>
   \<exists>es st'. captureEntries E cfg hc st d = Some (Resolves (es, st')) \<and> length es = Suc n
     \<and> (\<forall>i\<le>n. hop_entry E hc cfg st d i = Some (es ! i))
     \<and> map_option snd (hop_state E hc cfg st d n) = Some st'"
proof (induction n arbitrary: cfg st d)
  case 0
  then obtain e where h: "hop E cfg hc st d = Inr (e, None)" by (auto simp: stops_after_0)
  then show ?case by (simp add: captureEntries_stop hop_entry_0)
next
  case (Suc n)
  from Suc.prems obtain e cfg' st' where h: "hop E cfg hc st d = Inr (e, Some (cfg', st'))"
    and s: "stops_after E hc cfg' st' (Suc d) n"
    by (auto simp: stops_after_Suc)
  from Suc.IH[OF s] obtain es st'' where
    r: "captureEntries E cfg' hc st' (Suc d) = Some (Resolves (es, st''))" "length es = Suc n"
       "\<forall>i\<le>n. hop_entry E hc cfg' st' (Suc d) i = Some (es ! i)"
       "map_option snd (hop_state E hc cfg' st' (Suc d) n) = Some st''"
    by blast
  have "\<forall>i\<le>Suc n. hop_entry E hc cfg st d i = Some ((e # es) ! i)"
  proof (intro allI impI)
    fix i assume "i \<le> Suc n"
    then show "hop_entry E hc cfg st d i = Some ((e # es) ! i)"
      using r(3) hop_entry_Suc[OF h] hop_entry_0[OF h] by (cases i) simp_all
  qed
  then show ?case using r hop_state_Suc[OF h] by (simp add: captureEntries_follow[OF h])
qed

lemma completed_chain:
  assumes "captureEntries E cfg hc st d = Some (Resolves y)"
  shows "\<exists>n. stops_after E hc cfg st d n"
proof -
  have "captureEntries E cfg hc st d = Some r \<Longrightarrow> (\<exists>y. r = Resolves y) \<longrightarrow> (\<exists>n. stops_after E hc cfg st d n)" for r
  proof (induction rule: captureEntries.raw_induct[rotated, consumes 1, case_names step])
    case (step ce E cfg hc st d r)
    show ?case
    proof (cases "hop E cfg hc st d")
      case (Inl x)
      with step(2) show ?thesis by auto
    next
      case (Inr p)
      obtain e nx where p: "p = (e, nx)" by (cases p)
      show ?thesis
      proof (cases nx)
        case None
        then have "stops_after E hc cfg st d 0" using Inr p by (simp add: stops_after_0)
        then show ?thesis by blast
      next
        case (Some a)
        obtain cfg' st' where a: "a = (cfg', st')" by (cases a)
        note h = Inr[unfolded p Some a]
        show ?thesis
        proof
          assume "\<exists>y. r = Resolves y"
          then obtain y where y: "r = Resolves y" ..
          from step(2) h obtain r' where r': "ce E cfg' hc st' (d + 1) = Some r'"
            "r = prepend_entry e r'"
            by (auto simp: bind_eq_Some_conv)
          have "\<exists>y'. r' = Resolves y'" using r'(2) y by (cases r') auto
          with step(1)[OF r'(1)] obtain n where "stops_after E hc cfg' st' (d + 1) n" by blast
          then have "stops_after E hc cfg st d (Suc n)" using h by (simp add: stops_after_Suc)
          then show "\<exists>n. stops_after E hc cfg st d n" ..
        qed
      qed
    qed
  qed
  from this[OF assms] show ?thesis by blast
qed

lemma js_error_eta: "\<lparr>err_message = err_message e, err_code = err_code e\<rparr> = (e::js_error)"
  by simp

lemma captureEntry_throws:
  "captureEntry E cfg hc sc = Inl x \<longleftrightarrow> request_target cfg = None \<and> x = TypeError"
  by (auto simp: captureEntry_def Let_def split: option.splits settled.splits)

lemma captureEntry_cases:
  assumes "captureEntry E cfg hc sc = Inr (req, err, res)"
  shows "\<exists>t. request_target cfg = Some t \<and> uri_href req = url_href E t"
    and "(err = None \<and> (\<exists>r. res = Some r \<and> request r = req)) \<or> (res = None \<and> (\<exists>e. err = Some e))"
  using assms
  by (auto simp: captureEntry_def request_promise_def Let_def mk_response_def
           split: settled.splits if_splits wire.splits head_action.splits option.splits
                  stream_end.splits)

lemma captureEntry_response:
  assumes "captureEntry E cfg hc sc = Inr (req, err, Some r)"
  shows "err = None" and "request r = req"
  using captureEntry_cases(2)[OF assms] by auto

lemma hop_throws:
  "hop E cfg hc st d = Inl x \<longleftrightarrow> request_target cfg = None \<and> x = TypeError"
proof (cases "captureEntry E cfg hc (exchange_of E cfg d)")
  case (Inl y)
  then show ?thesis using captureEntry_throws[of E cfg hc "exchange_of E cfg d" y]
    by (auto simp: hop_def)
next
  case (Inr t)
  obtain req err res where t: "t = (req, err, res)" by (cases t)
  have "request_target cfg \<noteq> None" using captureEntry_cases(1)[OF Inr[unfolded t]] by auto
  moreover have "hop E cfg hc st d \<noteq> Inl x"
    using Inr t by (auto simp: hop_def Let_def split: prod.splits option.splits)
  ultimately show ?thesis by simp
qed

lemma hop_rejected:
  assumes "captureEntry E cfg hc (exchange_of E cfg d) = Inr (req, Some e, None)"
  shows "hop E cfg hc st d = Inr (buildHarEntry E req (Some e) None hc, None)"
  using assms by (simp add: hop_def shouldRedirect_def)

lemma hop_resolved:
  assumes "captureEntry E cfg hc (exchange_of E cfg d) = Inr (req, err, Some r)"
  shows "hop E cfg hc st d =
    Inr (buildHarEntry E req (snd (shouldRedirect E (Some r) cfg d)) (Some r) hc,
     if fst (shouldRedirect E (Some r) cfg d) then
       Some (cfg\<lparr>url := Some (parseRedirectUrl E (Some r))\<rparr>,
             case getCustomHostHeaderName st cfg of
               None \<Rightarrow> st
             | Some name \<Rightarrow> set_header st (headers cfg) name (url_host E (parseRedirectUrl E (Some r))))
     else None)"
proof -
  have "err = None" "request r = req" using captureEntry_response[OF assms] by auto
  then show ?thesis using assms
    by (cases "shouldRedirect E (Some r) cfg d")
       (simp add: hop_def Let_def buildHarEntry_def buildHarResponse_def split: option.splits)
qed

lemma hop_request_url:
  assumes "hop E cfg hc st d = Inr (e, n)"
  shows "\<exists>t. request_target cfg = Some t \<and> har_url (entry_request e) = url_href E t"
proof -
  obtain req err res where c: "captureEntry E cfg hc (exchange_of E cfg d) = Inr (req, err, res)"
    using assms by (cases "captureEntry E cfg hc (exchange_of E cfg d)") (auto simp: hop_def)
  note u = captureEntry_cases[OF c]
  show ?thesis
  proof (cases res)
    case None
    then obtain e' where "err = Some e'" using u(2) by auto
    with None c assms show ?thesis using u(1)
      by (auto simp: hop_rejected buildHarEntry_def buildHarRequest_def)
  next
    case (Some r)
    with c assms show ?thesis using u(1) u(2)
      by (auto simp: hop_resolved buildHarEntry_def buildHarRequest_def)
  qed
qed

lemma hop_next:
  assumes "hop E cfg hc st d = Inr (e, Some (cfg', st'))"
  shows "cfg' = cfg\<lparr>url := Some (redirectURL (entry_response e))\<rparr>"
    and "redirectURL (entry_response e) \<noteq> []"
    and "\<exists>b l. redirectURL (entry_response e) = url_resolve E b l"
proof -
  obtain req err res where c: "captureEntry E cfg hc (exchange_of E cfg d) = Inr (req, err, res)"
    using assms by (cases "captureEntry E cfg hc (exchange_of E cfg d)") (auto simp: hop_def)
  note u = captureEntry_cases[OF c]
  have "res \<noteq> None"
  proof
    assume "res = None"
    then obtain e' where "err = Some e'" "res = None" using u(2) by auto
    with c assms show False by (simp add: hop_rejected)
  qed
  then obtain r where r: "res = Some r" by auto
  note h = hop_resolved[OF c[unfolded r], of st]
  have f: "fst (shouldRedirect E (Some r) cfg d)"
    using assms h by (simp split: if_splits)
  have e: "e = buildHarEntry E req (snd (shouldRedirect E (Some r) cfg d)) (Some r) hc"
    using assms h by simp
  have u: "redirectURL (entry_response e) = parseRedirectUrl E (Some r)"
    unfolding e by (simp add: buildHarEntry_def buildHarResponse_def)
  show "cfg' = cfg\<lparr>url := Some (redirectURL (entry_response e))\<rparr>"
    using assms h f u by simp
  show ne: "redirectURL (entry_response e) \<noteq> []"
    unfolding u using f by (auto simp: shouldRedirect_def split: if_splits)
  then have "\<exists>b l. parseRedirectUrl E (Some r) = url_resolve E b l"
    unfolding u by (auto simp: parseRedirectUrl_def split: if_splits option.splits)
  then show "\<exists>b l. redirectURL (entry_response e) = url_resolve E b l"
    unfolding u .
qed

section \<open>Base64 decoding inverts encoding\<close>

lemma index_of_nth: "distinct xs \<Longrightarrow> i < length xs \<Longrightarrow> index_of (xs ! i) xs = i"
proof (induction xs arbitrary: i)
  case Nil
  then show ?case by simp
next
  case (Cons x xs)
  then show ?case by (cases i) auto
qed

lemma base64_alphabet_length: "length base64_alphabet = 64"
  by (simp add: base64_alphabet_def)

lemma base64_alphabet_distinct: "distinct base64_alphabet"
  by (simp add: base64_alphabet_def)

lemma base64_alphabet_no_pad: "CHR ''='' \<notin> set base64_alphabet"
  by (simp add: base64_alphabet_def)

lemma char_sextet_inverse: "n < 64 \<Longrightarrow> char_sextet (sextet_char n) = n"
  by (simp add: char_sextet_def sextet_char_def index_of_nth base64_alphabet_distinct
      base64_alphabet_length)

lemma sextet_char_no_pad: "n < 64 \<Longrightarrow> sextet_char n \<noteq> CHR ''=''"
proof
  assume n: "n < 64" and e: "sextet_char n = CHR ''=''"
  have "base64_alphabet ! n \<in> set base64_alphabet"
    using n by (intro nth_mem) (simp add: base64_alphabet_length)
  then show False using e base64_alphabet_no_pad by (simp add: sextet_char_def)
qed

lemma byte_bound: "unat (a::byte) < 256"
  using unsigned_less[of a, where 'a = nat] by simp

lemma sextet_bounds:
  fixes a b c :: byte
  shows "unat a div 4 < 64" "(unat a mod 4) * 16 + unat b div 16 < 64"
    "(unat b mod 16) * 4 + unat c div 64 < 64" "unat c mod 64 < 64"
    "(unat a mod 4) * 16 < 64" "(unat b mod 16) * 4 < 64"
  using byte_bound[of a] byte_bound[of b] byte_bound[of c] by simp_all

lemma join_bytes:
  fixes a b c :: byte
  shows "of_nat (unat a div 4 * 4 + ((unat a mod 4) * 16 + unat b div 16) div 16) = a"
    "of_nat ((((unat a mod 4) * 16 + unat b div 16) mod 16) * 16
             + ((unat b mod 16) * 4 + unat c div 64) div 4) = b"
    "of_nat ((((unat b mod 16) * 4 + unat c div 64) mod 4) * 64 + unat c mod 64) = c"
    "of_nat (unat a div 4 * 4 + ((unat a mod 4) * 16) div 16) = a"
    "of_nat ((((unat a mod 4) * 16 + unat b div 16) mod 16) * 16 + ((unat b mod 16) * 4) div 4) = b"
proof -
  have A: "unat b div 16 < 16" "unat c div 64 < 4" using byte_bound[of b] byte_bound[of c] by arith+
  have 1: "unat a div 4 * 4 + ((unat a mod 4) * 16 + unat b div 16) div 16 = unat a"
    using A by simp
  have 2: "(((unat a mod 4) * 16 + unat b div 16) mod 16) * 16
             + ((unat b mod 16) * 4 + unat c div 64) div 4 = unat b"
    using A by simp
  have 3: "(((unat b mod 16) * 4 + unat c div 64) mod 4) * 64 + unat c mod 64 = unat c"
    using A by simp
  have 4: "unat a div 4 * 4 + ((unat a mod 4) * 16) div 16 = unat a" by simp
  have 5: "(((unat a mod 4) * 16 + unat b div 16) mod 16) * 16 + ((unat b mod 16) * 4) div 4 = unat b"
    using A by simp
  show "of_nat (unat a div 4 * 4 + ((unat a mod 4) * 16 + unat b div 16) div 16) = a"
    "of_nat ((((unat a mod 4) * 16 + unat b div 16) mod 16) * 16
             + ((unat b mod 16) * 4 + unat c div 64) div 4) = b"
    "of_nat ((((unat b mod 16) * 4 + unat c div 64) mod 4) * 64 + unat c mod 64) = c"
    "of_nat (unat a div 4 * 4 + ((unat a mod 4) * 16) div 16) = a"
    "of_nat ((((unat a mod 4) * 16 + unat b div 16) mod 16) * 16 + ((unat b mod 16) * 4) div 4) = b"
    by (simp_all only: 1 2 3 4 5 of_nat_unat unsigned_word_eqI ucast_id)
qed

lemmas base64_unfold =
  base64_encode.simps base64_decode.simps Let_def char_sextet_inverse sextet_bounds
  sextet_char_no_pad if_False if_True simp_thms join_bytes append.simps

lemma base64_roundtrip: "base64_decode (base64_encode bs) = bs"
proof (induction bs rule: base64_encode.induct)
  case 1
  then show ?case by simp
next
  case (2 a)
  show ?case by (simp only: base64_unfold)
next
  case (3 a b)
  show ?case by (simp only: base64_unfold)
next
  case (4 a b c bs)
  then show ?case by (simp only: base64_unfold)
qed

section \<open>Further facts used below\<close>

lemmas run_defs =
  hop_def exchange_of_def request_target_def captureEntry_def request_promise_def
  globalTimeout_def onResponse_def onData_def
  data_listener_def mk_response_def shouldRedirect_def parseRedirectUrl_def
  getCustomHostHeaderName_def set_header_def buildHarEntry_def buildHarRequest_def
  buildHarResponse_def buildHarContent_def getMimeType_def parseHttpVersion_def parseInt_def
  is_space_def digit_of_def toUpperCase_def toLowerCase_def buildHarConfig_def
  buildRequestConfig_def Let_def

lemmas ex_defs = ex_env_def ex_network_def ex_head_def ex_host_def ex_config_def ex_options_def

lemma captureHar_chain:
  assumes "stops_after E (buildHarConfig ho) (buildRequestConfig rc) st 1 n"
  shows "\<exists>log st'. captureHar E rc ho st = Some (Resolves (log, st')) \<and> length (entries log) = Suc n
     \<and> (\<forall>i\<le>n. hop_entry E (buildHarConfig ho) (buildRequestConfig rc) st 1 i = Some (entries log ! i))
     \<and> map_option snd (hop_state E (buildHarConfig ho) (buildRequestConfig rc) st 1 n) = Some st'"
proof -
  from chain_result[OF assms] obtain es st' where
    r: "captureEntries E (buildRequestConfig rc) (buildHarConfig ho) st 1 = Some (Resolves (es, st'))"
       "length es = Suc n"
       "\<forall>i\<le>n. hop_entry E (buildHarConfig ho) (buildRequestConfig rc) st 1 i = Some (es ! i)"
       "map_option snd (hop_state E (buildHarConfig ho) (buildRequestConfig rc) st 1 n) = Some st'"
    by blast
  then show ?thesis by (simp add: captureHar_def)
qed

lemma captureHar_single:
  assumes "hop E (buildRequestConfig rc) (buildHarConfig ho) st 1 = Inr (e, None)"
  shows "captureHar E rc ho st =
    Some (Resolves (\<lparr>version = ''1.2'', creator = (pkg_name E, pkg_version E), entries = [e]\<rparr>, st))"
  using captureEntries_stop[OF assms] by (simp add: captureHar_def)





lemma captureHar_throws_without_target:
  assumes "request_target (buildRequestConfig rc) = None"
  shows "captureHar E rc ho st = Some (Throws TypeError)"
proof -
  have "hop E (buildRequestConfig rc) (buildHarConfig ho) st 1 = Inl TypeError"
    using assms by (simp add: hop_throws)
  from captureEntries_throw[OF this] show ?thesis by (simp add: captureHar_def)
qed



lemma shouldRedirect_default:
  assumes "followRedirect cfg = FollowAbsent \<or> followRedirect cfg = FollowBool True"
    and "300 \<le> statusCode r \<and> statusCode r < 400 \<and> parseRedirectUrl E (Some r) \<noteq> []"
  shows "shouldRedirect E (Some r) cfg depth =
    (if int depth > (case maxRedirects cfg of None \<Rightarrow> 10 | Some m \<Rightarrow> m)
     then (False, Some maxredirects_error) else (True, None))"
  using assms by (auto simp: shouldRedirect_def)

lemma shouldRedirect_predicate:
  assumes "followRedirect cfg = FollowFn f"
    and "300 \<le> statusCode r \<and> statusCode r < 400 \<and> parseRedirectUrl E (Some r) \<noteq> []"
  shows "shouldRedirect E (Some r) cfg depth = (f r, None)"
  using assms by (auto simp: shouldRedirect_def)

lemma shouldRedirect_nolocation:
  assumes "300 \<le> statusCode r \<and> statusCode r < 400" and "parseRedirectUrl E (Some r) = []"
  shows "shouldRedirect E (Some r) cfg depth = (False, Some nolocation_error)"
  using assms by (auto simp: shouldRedirect_def)

lemma entry_error_ext:
  "error_ext (entry_response (buildHarEntry E req err res hc)) = err"
  by (cases err) (simp_all add: buildHarEntry_def buildHarResponse_def)

lemma entry_redirectURL:
  "redirectURL (entry_response (buildHarEntry E req err res hc)) = parseRedirectUrl E res"
  by (simp add: buildHarEntry_def buildHarResponse_def)

lemma ulp_small: "n < 9007199254740992 \<Longrightarrow> ulp n 1 = 1"
  by (subst ulp.simps) simp

lemma round_double_exact:
  assumes "n \<le> 9007199254740992"
  shows "round_double n = Num (int n)"
proof (cases "n < 9007199254740992")
  case True
  have "n < 2 ^ 1024" using True by simp
  then show ?thesis using True by (simp add: round_double_def ulp_small Let_def)
next
  case False
  then have n: "n = 9007199254740992" using assms by simp
  have u: "ulp n 1 = 2" unfolding n by (simp add: ulp.simps)
  show ?thesis unfolding round_double_def u unfolding n by (simp add: Let_def)
qed

lemma round_double_tie: "round_double 9007199254740993 = Num 9007199254740992"
proof -
  have u: "ulp 9007199254740993 1 = 2" by (simp add: ulp.simps)
  show ?thesis unfolding round_double_def u by (simp add: Let_def)
qed

lemma round_double_int_exact:
  assumes "0 \<le> i" and "i \<le> 9007199254740992"
  shows "round_double_int i = Num i"
proof -
  have "nat i \<le> 9007199254740992" using assms by simp
  from round_double_exact[OF this] show ?thesis using assms by (simp add: round_double_int_def)
qed

lemma js_add_exact:
  assumes "0 \<le> a" and "a + int n \<le> 9007199254740992"
  shows "js_add (Num a) n = Num (a + int n)"
proof -
  have "nat (a + int n) \<le> 9007199254740992" using assms by simp
  from round_double_exact[OF this] show ?thesis using assms by (simp add: round_double_int_def)
qed

lemma running_count_exact:
  "0 \<le> a \<Longrightarrow> a + int (length (concat cs)) \<le> 9007199254740992
     \<Longrightarrow> running_count (Num a) cs = Num (a + int (length (concat cs)))"
proof (induction cs arbitrary: a)
  case Nil
  then show ?case by simp
next
  case (Cons c cs)
  have s: "js_add (Num a) (length c) = Num (a + int (length c))"
    using Cons.prems by (intro js_add_exact) auto
  have "running_count (Num (a + int (length c))) cs
          = Num ((a + int (length c)) + int (length (concat cs)))"
    using Cons.prems by (intro Cons.IH) auto
  then show ?case unfolding running_count.simps s by (simp add: add.assoc)
qed

lemma digit_of_nth: "d < 10 \<Longrightarrow> digit_of (''0123456789'' ! d) = Some d"
proof -
  assume d: "d < 10"
  have "index_of (''0123456789'' ! d) ''0123456789'' = d"
    using d by (intro index_of_nth) simp_all
  then show ?thesis using d by (simp add: digit_of_def)
qed

lemma leading_digits_snoc:
  "\<forall>c\<in>set xs. digit_of c \<noteq> None \<Longrightarrow> digit_of c = Some d
     \<Longrightarrow> leading_digits acc (xs @ [c])
           = Some ((case leading_digits acc xs of None \<Rightarrow> 0 | Some a \<Rightarrow> a) * 10 + d)"
  by (induction xs arbitrary: acc) auto

lemma decimal_digits: "\<forall>c\<in>set (decimal n). digit_of c \<noteq> None"
proof (induction n rule: decimal.induct)
  case (1 n)
  show ?case
  proof (cases "n < 10")
    case True
    then show ?thesis by (subst decimal.simps) (simp add: digit_of_nth)
  next
    case False
    have "n mod 10 < 10" by simp
    from digit_of_nth[OF this] 1[OF False] False
    show ?thesis by (subst decimal.simps) (simp del: nth_Cons_numeral)
  qed
qed

lemma leading_digits_decimal: "leading_digits None (decimal n) = Some n"
proof (induction n rule: decimal.induct)
  case (1 n)
  show ?case
  proof (cases "n < 10")
    case True
    then show ?thesis by (subst decimal.simps) (simp add: digit_of_nth del: nth_Cons_numeral)
  next
    case False
    have d: "digit_of (''0123456789'' ! (n mod 10)) = Some (n mod 10)"
      by (intro digit_of_nth) simp
    have "leading_digits None (decimal (n div 10) @ [''0123456789'' ! (n mod 10)])
            = Some (n div 10 * 10 + n mod 10)"
      using leading_digits_snoc[OF decimal_digits d, where acc = None] 1[OF False] by simp
    then show ?thesis using False by (subst decimal.simps) simp
  qed
qed

lemma decimal_not_empty: "decimal n \<noteq> []"
  by (subst decimal.simps) simp

lemma digit_not_space_or_sign:
  "digit_of c \<noteq> None \<Longrightarrow> \<not> is_space c \<and> c \<noteq> CHR ''-'' \<and> c \<noteq> CHR ''+''"
  by (auto simp: digit_of_def is_space_def)

lemma parseInt_decimal: "parseInt (Some (decimal n)) = Some (round_double n)"
proof -
  obtain c cs where e: "decimal n = c # cs" using decimal_not_empty[of n] by (cases "decimal n") auto
  have "digit_of c \<noteq> None" using decimal_digits[of n] e by simp
  from digit_not_space_or_sign[OF this] leading_digits_decimal[of n]
  show ?thesis by (simp add: parseInt_def e)
qed

lemma stream_size_error:
  assumes dl: "data_listener hc" and mx: "maxContentLength hc = Num m"
  shows "k < length chunks \<Longrightarrow> (case timer of None \<Rightarrow> True | Some t \<Rightarrow> k < t)
    \<Longrightarrow> js_gt (Some (running_count b (take (Suc k) chunks))) (Num m)
    \<Longrightarrow> stream hc timer b chunks tail = Failed size_error"
proof (induction chunks arbitrary: k timer b)
  case Nil
  then show ?case by simp
next
  case (Cons c rest)
  have t0: "timer \<noteq> Some 0" using Cons.prems(2) by (auto split: option.splits)
  show ?case
  proof (cases "js_gt (Some (js_add b (length c))) (Num m)")
    case True
    then show ?thesis using t0 dl mx by (simp add: onData_def Let_def)
  next
    case False
    then have "k \<noteq> 0" using Cons.prems(3) by (cases k) auto
    then obtain k' where k: "k = Suc k'" by (cases k) auto
    have a: "k' < length rest" using Cons.prems(1) k by simp
    have b: "case map_option (\<lambda>k. k - 1) timer of None \<Rightarrow> True | Some t \<Rightarrow> k' < t"
      using Cons.prems(2) k by (auto split: option.splits)
    have c: "js_gt (Some (running_count (js_add b (length c)) (take (Suc k') rest))) (Num m)"
      using Cons.prems(3) k by simp
    have "stream hc (map_option (\<lambda>k. k - 1) timer) (js_add b (length c)) rest tail
            = Failed size_error"
      using Cons.IH[OF a b c] .
    then show ?thesis using False t0 dl mx by (simp add: onData_def Let_def)
  qed
qed

lemma entries_are_hops:
  assumes "captureEntries E cfg hc st d = Some (Resolves (es, st'))" and "e \<in> set es"
  shows "\<exists>c s k n. hop E c hc s k = Inr (e, n)"
proof -
  from completed_chain[OF assms(1)] obtain n where s: "stops_after E hc cfg st d n" ..
  from chain_result[OF s] assms(1) have l: "length es = Suc n"
    and h: "\<forall>i\<le>n. hop_entry E hc cfg st d i = Some (es ! i)" by auto
  from assms(2) obtain i where i: "i < length es" "e = es ! i" by (auto simp: in_set_conv_nth)
  then have "hop_entry E hc cfg st d i = Some e" using h l by simp
  then obtain c s n where "hop E c hc s (d + i) = Inr (e, n)"
    by (auto simp: hop_entry_def split: option.splits sum.splits)
  then show ?thesis by (intro exI)
qed

lemma captureEntry_no_content:
  assumes "\<not> withContent hc"
  shows "captureEntry E cfg hc sc =
    (case request_target cfg of
       None \<Rightarrow> Inl TypeError
     | Some t \<Rightarrow>
        (let reqObject = \<lparr>req_method = (case cfg_method cfg of None \<Rightarrow> ''GET'' | Some m \<Rightarrow> m),
                           uri_href = url_href E t\<rparr>
         in if globalTimeout cfg sc = Some 0 then Inr (reqObject, Some timeout_error, None)
            else case on_wire sc of
                   ConnFail e \<Rightarrow> Inr (reqObject, Some e, None)
                 | Reply h chunks tail \<Rightarrow>
                     Inr (reqObject, None, Some (mk_response h (materialize E []) reqObject))))"
  using assms
  by (simp add: captureEntry_def request_promise_def onResponse_def Let_def
           split: wire.splits option.splits)

lemma hop_error_sources:
  assumes nc: "\<not> withContent hc"
    and h: "hop E c hc s k = Inr (e, n)"
    and e: "error_ext (entry_response e) = Some x"
  shows "x = timeout_error \<or> x = nolocation_error \<or> x = maxredirects_error
         \<or> on_wire (exchange_of E c k) = ConnFail x"
proof -
  obtain req err res where ce: "captureEntry E c hc (exchange_of E c k) = Inr (req, err, res)"
    using h by (cases "captureEntry E c hc (exchange_of E c k)") (auto simp: hop_def)
  show ?thesis
  proof (cases res)
    case None
    then obtain e' where e': "err = Some e'" using captureEntry_cases(2)[OF ce] by auto
    have "e = buildHarEntry E req (Some e') None hc"
      using h hop_rejected[OF ce[unfolded None e'], of s] by simp
    then have "x = e'" using e by (simp add: entry_error_ext)
    moreover have "e' = timeout_error \<or> on_wire (exchange_of E c k) = ConnFail e'"
      using ce None e' unfolding captureEntry_no_content[OF nc]
      by (auto simp: Let_def split: if_splits wire.splits option.splits)
    ultimately show ?thesis by auto
  next
    case (Some r)
    have "e = buildHarEntry E req (snd (shouldRedirect E (Some r) c k)) (Some r) hc"
      using h hop_resolved[OF ce[unfolded Some], of s] by simp
    then have "snd (shouldRedirect E (Some r) c k) = Some x"
      using e by (simp add: entry_error_ext)
    then show ?thesis
      by (auto simp: shouldRedirect_def split: if_splits follow_redirect.splits bool.splits)
  qed
qed

lemma buildHarContent_no_text:
  "\<not> withContent hc \<Longrightarrow> content_text (buildHarContent E res hc) = None"
  by (cases res) (simp_all add: buildHarContent_def Let_def)

lemma hop_entry_no_text:
  assumes nc: "\<not> withContent hc" and h: "hop E c hc s k = Inr (e, n)"
  shows "content_text (content (entry_response e)) = None"
proof -
  obtain req err res where ce: "captureEntry E c hc (exchange_of E c k) = Inr (req, err, res)"
    using h by (cases "captureEntry E c hc (exchange_of E c k)") (auto simp: hop_def)
  show ?thesis
  proof (cases res)
    case None
    then obtain e' where e': "err = Some e'" using captureEntry_cases(2)[OF ce] by auto
    show ?thesis using h hop_rejected[OF ce[unfolded None e'], of s]
      by (auto simp: buildHarEntry_def buildHarResponse_def buildHarContent_no_text[OF nc])
  next
    case (Some r)
    show ?thesis using h hop_resolved[OF ce[unfolded Some], of s]
      by (auto simp: buildHarEntry_def buildHarResponse_def buildHarContent_no_text[OF nc])
  qed
qed

lemma js_gt_Infinity: "js_gt x Infinity = False"
proof (cases x)
  case None
  then show ?thesis by simp
next
  case (Some n)
  then show ?thesis by (cases n) simp_all
qed

lemma stream_expires:
  "\<not> data_listener hc \<Longrightarrow> t \<le> length chunks \<Longrightarrow> stream hc (Some t) b chunks tail = Expired"
proof (induction chunks arbitrary: t)
  case Nil
  then show ?case by simp
next
  case (Cons c rest)
  show ?case
  proof (cases t)
    case 0
    then show ?thesis by simp
  next
    case (Suc t')
    then have "t' \<le> length rest" using Cons.prems(2) by simp
    from Cons.IH[OF Cons.prems(1) this] show ?thesis using Suc Cons.prems(1) by simp
  qed
qed

lemma timer_expiry_recorded:
  assumes num: "timeout cfg \<noteq> None" and tgt: "request_target cfg \<noteq> None"
    and dl: "deadline (exchange_of E cfg depth) = Some t"
    and early: "t = 0 \<or> (\<exists>h chunks tail. on_wire (exchange_of E cfg depth) = Reply h chunks tail
                  \<and> withContent hc \<and> maxContentLength hc = Infinity \<and> t \<le> Suc (length chunks))"
  shows "(\<exists>req. captureEntry E cfg hc (exchange_of E cfg depth) = Inr (req, Some timeout_error, None))
    \<and> (\<exists>e. hop E cfg hc st depth = Inr (e, None)
          \<and> map_option err_code (error_ext (entry_response e)) = Some (Some ''ETIMEDOUT'')
          \<and> status (entry_response e) = - 1)
    \<and> timer_after cfg hc (exchange_of E cfg depth) = Fired"
proof -
  let ?sc = "exchange_of E cfg depth"
  obtain u where u: "request_target cfg = Some u" using tgt by auto
  let ?req = "\<lparr>req_method = (case cfg_method cfg of None \<Rightarrow> ''GET'' | Some m \<Rightarrow> m),
               uri_href = url_href E u\<rparr>"
  have g: "globalTimeout cfg ?sc = Some t" using num dl by (simp add: globalTimeout_def)
  have rp: "request_promise E cfg hc ?req ?sc = Rejected \<lparr>cause = timeout_error, rej_response = None\<rparr>"
    and ta: "timer_after cfg hc ?sc = Fired"
  proof -
    show "request_promise E cfg hc ?req ?sc = Rejected \<lparr>cause = timeout_error, rej_response = None\<rparr>"
    proof (cases "t = 0")
      case True
      then show ?thesis using g by (simp add: request_promise_def)
    next
      case False
      with early obtain h chunks tail where w: "on_wire ?sc = Reply h chunks tail"
        "withContent hc" "maxContentLength hc = Infinity" "t \<le> Suc (length chunks)" by auto
      have nd: "\<not> data_listener hc" using w(3) by (simp add: data_listener_def)
      have on: "onResponse hc h = Continue"
        using w(2) w(3) by (simp add: onResponse_def js_gt_Infinity)
      have "t - 1 \<le> length chunks" using w(4) by simp
      from stream_expires[OF nd this]
      have "stream hc (Some (t - 1)) (Num 0) chunks tail = Expired" .
      then show ?thesis using False g w(1) on by (simp add: request_promise_def)
    qed
    show "timer_after cfg hc ?sc = Fired"
    proof (cases "t = 0")
      case True
      then show ?thesis using num dl by (simp add: timer_after_def)
    next
      case False
      with early obtain h chunks tail where w: "on_wire ?sc = Reply h chunks tail"
        "withContent hc" "maxContentLength hc = Infinity" "t \<le> Suc (length chunks)" by auto
      have nd: "\<not> data_listener hc" using w(3) by (simp add: data_listener_def)
      have on: "onResponse hc h = Continue"
        using w(2) w(3) by (simp add: onResponse_def js_gt_Infinity)
      have "t - 1 \<le> length chunks" using w(4) by simp
      from stream_expires[OF nd this]
      have "stream hc (Some (t - 1)) (Num 0) chunks tail = Expired" .
      then show ?thesis using False num dl w(1) on by (simp add: timer_after_def)
    qed
  qed
  have ce: "captureEntry E cfg hc ?sc = Inr (?req, Some timeout_error, None)"
    using rp u by (simp add: captureEntry_def)
  note hr = hop_rejected[OF ce, of st]
  let ?e = "buildHarEntry E ?req (Some timeout_error) None hc"
  have c: "map_option err_code (error_ext (entry_response ?e)) = Some (Some ''ETIMEDOUT'')"
    by (simp add: entry_error_ext timeout_error_def)
  have s: "status (entry_response ?e) = - 1"
    by (simp add: buildHarEntry_def buildHarResponse_def)
  have x: "\<exists>req. captureEntry E cfg hc ?sc = Inr (req, Some timeout_error, None)"
    using ce by (intro exI[of _ ?req])
  have y: "\<exists>e. hop E cfg hc st depth = Inr (e, None)
          \<and> map_option err_code (error_ext (entry_response e)) = Some (Some ''ETIMEDOUT'')
          \<and> status (entry_response e) = - 1"
    using hr c s by (intro exI[of _ ?e] conjI)
  show ?thesis using x y ta by (intro conjI)
qed

lemma timer_armed_iff:
  "timer_after cfg hc sc = Armed \<longleftrightarrow>
     timeout cfg \<noteq> None \<and> deadline sc \<noteq> Some 0 \<and> (\<exists>e. on_wire sc = ConnFail e)"
  by (auto simp: timer_after_def split: wire.splits head_action.splits stream_end.splits)

lemma timer_survives_connection_failure:
  assumes num: "timeout cfg \<noteq> None" and tgt: "request_target cfg \<noteq> None"
    and fail: "on_wire (exchange_of E cfg depth) = ConnFail x"
    and dl: "deadline (exchange_of E cfg depth) \<noteq> Some 0"
  shows "(\<exists>req. captureEntry E cfg hc (exchange_of E cfg depth) = Inr (req, Some x, None))
    \<and> timer_after cfg hc (exchange_of E cfg depth) = Armed"
proof -
  obtain u where u: "request_target cfg = Some u" using tgt by auto
  have "globalTimeout cfg (exchange_of E cfg depth) \<noteq> Some 0"
    using dl by (simp add: globalTimeout_def)
  then have "\<exists>req. captureEntry E cfg hc (exchange_of E cfg depth) = Inr (req, Some x, None)"
    using u fail by (simp add: captureEntry_def request_promise_def Let_def)
  moreover have "timer_after cfg hc (exchange_of E cfg depth) = Armed"
    unfolding timer_armed_iff using num dl fail by simp
  ultimately show ?thesis by (intro conjI)
qed

lemma empty_url_throws:
  "captureHar ex_env (UrlString []) ex_options Map.empty = Some (Throws TypeError)"
  by (rule captureHar_throws_without_target) (simp add: buildRequestConfig_def request_target_def)

lemma request_target_url:
  "(uri cfg = None \<or> uri cfg = Some []) \<Longrightarrow> v \<noteq> [] \<Longrightarrow>
   request_target (cfg\<lparr>url := Some v\<rparr>) = Some v"
  by (auto simp: request_target_def)

lemma request_target_uri:
  "uri cfg = Some u \<Longrightarrow> u \<noteq> [] \<Longrightarrow> request_target (cfg\<lparr>url := v\<rparr>) = Some u"
  by (simp add: request_target_def)

lemma next_request_is_redirect_target:
  assumes "uri cfg = None \<or> uri cfg = Some []"
    and "hop E cfg hc st d = Inr (e, Some (cfg', st'))"
    and "hop E cfg' hc st' (Suc d) = Inr (e', n)"
  shows "har_url (entry_request e') = url_href E (redirectURL (entry_response e))"
proof -
  note x = hop_next[OF assms(2)]
  have "request_target cfg' = Some (redirectURL (entry_response e))"
    unfolding x(1) using assms(1) x(2) by (rule request_target_url)
  then show ?thesis using hop_request_url[OF assms(3)] by auto
qed

lemma hop_state_step:
  "hop_state E hc cfg st d (Suc k) = Some (c', s') \<longleftrightarrow>
     (\<exists>c s e. hop_state E hc cfg st d k = Some (c, s)
        \<and> hop E c hc s (d + k) = Inr (e, Some (c', s')))"
proof (induction k arbitrary: cfg st d)
  case 0
  show ?case by (auto split: sum.splits option.splits prod.splits)
next
  case (Suc k)
  show ?case
  proof (cases "hop E cfg hc st d")
    case (Inl x)
    then show ?thesis by simp
  next
    case (Inr p)
    obtain e nx where p: "p = (e, nx)" by (cases p)
    show ?thesis
    proof (cases nx)
      case None
      then show ?thesis using Inr p by simp
    next
      case (Some a)
      obtain c1 s1 where a: "a = (c1, s1)" by (cases a)
      note h = Inr[unfolded p Some a]
      have "hop_state E hc cfg st d (Suc (Suc k)) = hop_state E hc c1 s1 (Suc d) (Suc k)"
        using h by simp
      moreover have "hop_state E hc cfg st d (Suc k) = hop_state E hc c1 s1 (Suc d) k"
        using h by simp
      ultimately show ?thesis using Suc.IH[of c1 s1 "Suc d"] by simp
    qed
  qed
qed

lemma hop_state_uri:
  "hop_state E hc cfg st d k = Some (c, s) \<Longrightarrow> uri c = uri cfg"
proof (induction k arbitrary: c s)
  case 0
  then show ?case by simp
next
  case (Suc k)
  from Suc.prems obtain c0 s0 e where
    p: "hop_state E hc cfg st d k = Some (c0, s0)"
       "hop E c0 hc s0 (d + k) = Inr (e, Some (c, s))"
    unfolding hop_state_step by (elim exE conjE)
  have "uri c = uri c0" using hop_next(1)[OF p(2)] by simp
  then show ?case using Suc.IH[OF p(1)] by simp
qed

lemma entries_follow_redirect_targets:
  assumes nu: "uri (buildRequestConfig rc) = None \<or> uri (buildRequestConfig rc) = Some []"
    and c: "captureHar E rc ho st = Some (Resolves (log, st'))"
  shows "\<exists>N. stops_after E (buildHarConfig ho) (buildRequestConfig rc) st 1 N
     \<and> length (entries log) = Suc N
     \<and> (\<forall>i\<le>N. hop_entry E (buildHarConfig ho) (buildRequestConfig rc) st 1 i
                  = Some (entries log ! i))
     \<and> (\<forall>i<N. har_url (entry_request (entries log ! Suc i))
                  = url_href E (redirectURL (entry_response (entries log ! i))))"
proof -
  let ?hc = "buildHarConfig ho"
  let ?rc = "buildRequestConfig rc"
  from c have ce: "captureEntries E ?rc ?hc st 1 = Some (Resolves (entries log, st'))"
    by (auto simp: captureHar_def split: option.splits settle.splits)
  from completed_chain[OF ce] obtain N where s: "stops_after E ?hc ?rc st 1 N" ..
  from captureHar_chain[OF s] c have l: "length (entries log) = Suc N"
    and r: "\<forall>i\<le>N. hop_entry E ?hc ?rc st 1 i = Some (entries log ! i)" by auto
  have adj: "har_url (entry_request (entries log ! Suc i))
               = url_href E (redirectURL (entry_response (entries log ! i)))" if "i < N" for i
  proof -
    from that r have e0: "hop_entry E ?hc ?rc st 1 i = Some (entries log ! i)"
      and e1: "hop_entry E ?hc ?rc st 1 (Suc i) = Some (entries log ! Suc i)" by auto
    from e1 obtain c' s' n' where cs': "hop_state E ?hc ?rc st 1 (Suc i) = Some (c', s')"
      "hop E c' ?hc s' (1 + Suc i) = Inr (entries log ! Suc i, n')"
      by (auto simp: hop_entry_def split: option.splits sum.splits)
    from cs'(1) obtain c0 s0 e where
      p: "hop_state E ?hc ?rc st 1 i = Some (c0, s0)"
         "hop E c0 ?hc s0 (1 + i) = Inr (e, Some (c', s'))"
      unfolding hop_state_step by (elim exE conjE)
    have e: "e = entries log ! i" using e0 p by (simp add: hop_entry_def)
    have u: "uri c0 = None \<or> uri c0 = Some []" using hop_state_uri[OF p(1)] nu by simp
    have "hop E c' ?hc s' (Suc (1 + i)) = Inr (entries log ! Suc i, n')" using cs'(2) by simp
    from next_request_is_redirect_target[OF u p(2) this] show ?thesis unfolding e .
  qed
  have a: "\<forall>i<N. har_url (entry_request (entries log ! Suc i))
                  = url_href E (redirectURL (entry_response (entries log ! i)))"
    using adj by simp
  show ?thesis using s l r a by (intro exI[of _ N] conjI)
qed

section \<open>Properties of the capture\<close>




text \<open>
  C2 says that \<^verbatim>\<open>entries[i].response.redirectURL\<close> equals \<^verbatim>\<open>entries[i+1].request.url\<close> along a
  chain of followed redirects. The configuration of the next hop is a copy of the previous
  one with a new \<^verbatim>\<open>url\<close> (\<open>hop_next\<close>), and the transport takes its target from \<^verbatim>\<open>uri\<close> when
  the configuration has one. Here the caller names \<^verbatim>\<open>a.example\<close> as \<^verbatim>\<open>uri\<close>, with
  \<^verbatim>\<open>maxRedirects\<close> 1, and \<^verbatim>\<open>a.example\<close> redirects to \<^verbatim>\<open>b.example\<close>: the redirect is followed, the
  second request goes to \<^verbatim>\<open>a.example\<close> again, and the log has two entries, the first with
  the redirect URL \<^verbatim>\<open>b.example\<close> and the second with the request URL \<^verbatim>\<open>a.example\<close>. For a
  configuration without \<^verbatim>\<open>uri\<close> every request after the first does go to the redirect target
  of the entry before it, and a completed capture has one entry per hop, in hop order
  (\<open>entries_follow_redirect_targets\<close>).
\<close>

theorem uri_config_requests_first_target_again:
  "\<exists>log st'.
     captureHar ex_env
       (Config \<lparr>uri = Some ''http://a.example/'', url = None, cfg_method = None, headers = None,
                followRedirect = FollowAbsent, maxRedirects = Some 1, timeout = None\<rparr>)
       ex_options Map.empty = Some (Resolves (log, st'))
     \<and> length (entries log) = 2
     \<and> redirectURL (entry_response (entries log ! 0)) = ''http://b.example/''
     \<and> har_url (entry_request (entries log ! 1)) = ''http://a.example/''"
proof -
  let ?hc = "buildHarConfig ex_options"
  let ?c = "\<lparr>uri = Some ''http://a.example/'', url = None, cfg_method = None, headers = None,
                followRedirect = FollowAbsent, maxRedirects = Some 1, timeout = None\<rparr>"
  let ?c' = "?c\<lparr>url := Some ''http://b.example/''\<rparr>"
  have "\<exists>e. hop ex_env ?c ?hc Map.empty 1 = Inr (e, Some (?c', Map.empty))
           \<and> redirectURL (entry_response e) = ''http://b.example/''"
    by (simp add: run_defs ex_defs)
  then obtain e1 where h1: "hop ex_env ?c ?hc Map.empty 1 = Inr (e1, Some (?c', Map.empty))"
    and u1: "redirectURL (entry_response e1) = ''http://b.example/''" by (elim exE conjE)
  have "\<exists>e. hop ex_env ?c' ?hc Map.empty (Suc 1) = Inr (e, None)
           \<and> har_url (entry_request e) = ''http://a.example/''"
    by (simp add: run_defs ex_defs)
  then obtain e2 where h2: "hop ex_env ?c' ?hc Map.empty (Suc 1) = Inr (e2, None)"
    and u2: "har_url (entry_request e2) = ''http://a.example/''" by (elim exE conjE)
  have ce: "captureEntries ex_env ?c ?hc Map.empty 1 = Some (Resolves ([e1, e2], Map.empty))"
    unfolding captureEntries_follow[OF h1] captureEntries_stop[OF h2] by simp
  show ?thesis using ce u1 u2 by (simp add: captureHar_def buildRequestConfig_def)
qed

text \<open>
  C3. A hop answers with a redirect (status in [300,400) and a usable Location header) and
  \<^verbatim>\<open>followRedirect\<close> is absent or true. Then the hop is followed if and only if its depth
  does not exceed \<^verbatim>\<open>maxRedirects\<close> (10 when absent); a followed hop continues with the
  redirect target at depth + 1; when the depth exceeds \<^verbatim>\<open>maxRedirects\<close> the chain stops with
  this hop, whose entry carries the code \<^verbatim>\<open>MAXREDIRECTS\<close>. The capture starts at depth 1, so
  \<^verbatim>\<open>maxRedirects = 0\<close> gives exactly one entry, with that code.
\<close>

theorem default_follow_respects_maxRedirects:
  assumes fr: "followRedirect cfg = FollowAbsent \<or> followRedirect cfg = FollowBool True"
    and res: "captureEntry E cfg hc (exchange_of E cfg depth) = Inr (req, err, Some r)"
    and redir: "300 \<le> statusCode r \<and> statusCode r < 400 \<and> parseRedirectUrl E (Some r) \<noteq> []"
  shows "((\<exists>e cfg' st'. hop E cfg hc st depth = Inr (e, Some (cfg', st')))
            \<longleftrightarrow> int depth \<le> (case maxRedirects cfg of None \<Rightarrow> 10 | Some m \<Rightarrow> m))
    \<and> (int depth \<le> (case maxRedirects cfg of None \<Rightarrow> 10 | Some m \<Rightarrow> m) \<longrightarrow>
         (\<exists>e cfg' st'. hop E cfg hc st depth = Inr (e, Some (cfg', st'))
            \<and> url cfg' = Some (parseRedirectUrl E (Some r))
            \<and> error_ext (entry_response e) = None
            \<and> captureEntries E cfg hc st depth =
                Option.bind (captureEntries E cfg' hc st' (Suc depth))
                  (\<lambda>x. Some (prepend_entry e x))))
    \<and> (int depth > (case maxRedirects cfg of None \<Rightarrow> 10 | Some m \<Rightarrow> m) \<longrightarrow>
         (\<exists>e. hop E cfg hc st depth = Inr (e, None)
            \<and> captureEntries E cfg hc st depth = Some (Resolves ([e], st))
            \<and> map_option err_code (error_ext (entry_response e)) = Some (Some ''MAXREDIRECTS'')))
    \<and> (depth = 1 \<and> maxRedirects cfg = Some 0 \<and> cfg = buildRequestConfig rc
          \<and> hc = buildHarConfig ho \<longrightarrow>
         (\<exists>log. captureHar E rc ho st = Some (Resolves (log, st)) \<and> length (entries log) = 1
            \<and> map_option err_code (error_ext (entry_response (entries log ! 0)))
                = Some (Some ''MAXREDIRECTS'')))"
proof -
  let ?m = "case maxRedirects cfg of None \<Rightarrow> 10 | Some m \<Rightarrow> m"
  note sr = shouldRedirect_default[OF fr redir, of depth]
  note h = hop_resolved[OF res, of st]
  have over: "\<exists>e. hop E cfg hc st depth = Inr (e, None)
      \<and> error_ext (entry_response e) = Some maxredirects_error"
    if "int depth > ?m"
    using that by (simp add: h sr entry_error_ext)
  have under: "\<exists>e cfg' st'. hop E cfg hc st depth = Inr (e, Some (cfg', st'))
      \<and> url cfg' = Some (parseRedirectUrl E (Some r))
      \<and> error_ext (entry_response e) = None"
    if "int depth \<le> ?m"
    using that by (simp add: h sr entry_error_ext)
  have c1: "(\<exists>e cfg' st'. hop E cfg hc st depth = Inr (e, Some (cfg', st'))) \<longleftrightarrow> int depth \<le> ?m"
  proof (cases "int depth \<le> ?m")
    case True
    with under show ?thesis by blast
  next
    case False
    then have "int depth > ?m" by simp
    from over[OF this] False show ?thesis by auto
  qed
  have c2: "int depth \<le> ?m \<longrightarrow>
         (\<exists>e cfg' st'. hop E cfg hc st depth = Inr (e, Some (cfg', st'))
            \<and> url cfg' = Some (parseRedirectUrl E (Some r))
            \<and> error_ext (entry_response e) = None
            \<and> captureEntries E cfg hc st depth =
                Option.bind (captureEntries E cfg' hc st' (Suc depth))
                  (\<lambda>x. Some (prepend_entry e x)))"
  proof
    assume "int depth \<le> ?m"
    from under[OF this] obtain e cfg' st' where
      n: "hop E cfg hc st depth = Inr (e, Some (cfg', st'))"
         "url cfg' = Some (parseRedirectUrl E (Some r))"
         "error_ext (entry_response e) = None"
      by (elim exE conjE)
    show "\<exists>e cfg' st'. hop E cfg hc st depth = Inr (e, Some (cfg', st'))
            \<and> url cfg' = Some (parseRedirectUrl E (Some r))
            \<and> error_ext (entry_response e) = None
            \<and> captureEntries E cfg hc st depth =
                Option.bind (captureEntries E cfg' hc st' (Suc depth))
                  (\<lambda>x. Some (prepend_entry e x))"
      using n captureEntries_follow[OF n(1)]
      by (intro exI[of _ e] exI[of _ cfg'] exI[of _ st'] conjI)
  qed
  have c3: "int depth > ?m \<longrightarrow>
         (\<exists>e. hop E cfg hc st depth = Inr (e, None)
            \<and> captureEntries E cfg hc st depth = Some (Resolves ([e], st))
            \<and> map_option err_code (error_ext (entry_response e)) = Some (Some ''MAXREDIRECTS''))"
  proof
    assume "int depth > ?m"
    from over[OF this] obtain e where e: "hop E cfg hc st depth = Inr (e, None)"
      "error_ext (entry_response e) = Some maxredirects_error" by (elim exE conjE)
    have "map_option err_code (error_ext (entry_response e)) = Some (Some ''MAXREDIRECTS'')"
      unfolding e(2) by (simp add: maxredirects_error_def)
    then show "\<exists>e. hop E cfg hc st depth = Inr (e, None)
            \<and> captureEntries E cfg hc st depth = Some (Resolves ([e], st))
            \<and> map_option err_code (error_ext (entry_response e)) = Some (Some ''MAXREDIRECTS'')"
      using e(1) captureEntries_stop[OF e(1)] by (intro exI[of _ e] conjI)
  qed
  have c4: "depth = 1 \<and> maxRedirects cfg = Some 0 \<and> cfg = buildRequestConfig rc
          \<and> hc = buildHarConfig ho \<longrightarrow>
         (\<exists>log. captureHar E rc ho st = Some (Resolves (log, st)) \<and> length (entries log) = 1
            \<and> map_option err_code (error_ext (entry_response (entries log ! 0)))
                = Some (Some ''MAXREDIRECTS''))"
  proof
    assume a: "depth = 1 \<and> maxRedirects cfg = Some 0 \<and> cfg = buildRequestConfig rc
          \<and> hc = buildHarConfig ho"
    then have d: "depth = 1" and m: "maxRedirects cfg = Some 0" by auto
    have "int depth > ?m" unfolding d m by simp
    from over[OF this] obtain e where e: "hop E cfg hc st depth = Inr (e, None)"
      "error_ext (entry_response e) = Some maxredirects_error" by (elim exE conjE)
    have "hop E (buildRequestConfig rc) (buildHarConfig ho) st 1 = Inr (e, None)"
      using e(1) a by simp
    from captureHar_single[OF this] e(2)
    show "\<exists>log. captureHar E rc ho st = Some (Resolves (log, st)) \<and> length (entries log) = 1
            \<and> map_option err_code (error_ext (entry_response (entries log ! 0)))
                = Some (Some ''MAXREDIRECTS'')"
      by (simp add: maxredirects_error_def)
  qed
  show ?thesis using c1 c2 c3 c4 by (intro conjI)
qed

theorem default_follow_respects_maxRedirects_witness:
  "followRedirect ((ex_config ''http://loop.example/'')\<lparr>maxRedirects := Some 0\<rparr>) = FollowAbsent
   \<and> maxRedirects ((ex_config ''http://loop.example/'')\<lparr>maxRedirects := Some 0\<rparr>) = Some 0
   \<and> (\<exists>req r.
         captureEntry ex_env ((ex_config ''http://loop.example/'')\<lparr>maxRedirects := Some 0\<rparr>)
           (buildHarConfig ex_options)
           (exchange_of ex_env ((ex_config ''http://loop.example/'')\<lparr>maxRedirects := Some 0\<rparr>) 1)
          = Inr (req, None, Some r)
         \<and> statusCode r = 302
         \<and> parseRedirectUrl ex_env (Some r) = ''http://loop.example/'')
   \<and> (\<exists>log. captureHar ex_env (Config ((ex_config ''http://loop.example/'')\<lparr>maxRedirects := Some 0\<rparr>))
                 ex_options Map.empty = Some (Resolves (log, Map.empty))
          \<and> length (entries log) = 1
          \<and> map_option err_code (error_ext (entry_response (entries log ! 0)))
              = Some (Some ''MAXREDIRECTS''))"
proof -
  let ?cfg = "(ex_config ''http://loop.example/'')\<lparr>maxRedirects := Some 0\<rparr>"
  let ?req = "\<lparr>req_method = ''GET'', uri_href = ''http://loop.example/''\<rparr>"
  let ?r = "mk_response (ex_head 302 ''Found'' [(''location'', ''http://loop.example/'')])
              (BufBody []) ?req"
  have f: "followRedirect ?cfg = FollowAbsent" by (simp add: ex_config_def)
  have m: "maxRedirects ?cfg = Some 0" by simp
  have c: "captureEntry ex_env ?cfg (buildHarConfig ex_options) (exchange_of ex_env ?cfg 1)
             = Inr (?req, None, Some ?r)"
    by (simp add: run_defs ex_defs)
  have s: "statusCode ?r = 302" by (simp add: mk_response_def ex_head_def)
  have p: "parseRedirectUrl ex_env (Some ?r) = ''http://loop.example/''"
    by (simp add: run_defs ex_defs)
  have d: "300 \<le> statusCode ?r \<and> statusCode ?r < 400 \<and> parseRedirectUrl ex_env (Some ?r) \<noteq> []"
    unfolding s p by simp
  have k: "(1::nat) = 1 \<and> maxRedirects ?cfg = Some 0 \<and> ?cfg = buildRequestConfig (Config ?cfg)
          \<and> buildHarConfig ex_options = buildHarConfig ex_options"
    by (simp add: buildRequestConfig_def)
  note t = default_follow_respects_maxRedirects[OF disjI1[OF f] c d, of Map.empty "Config ?cfg" ex_options]
  have e: "\<exists>log. captureHar ex_env (Config ?cfg) ex_options Map.empty = Some (Resolves (log, Map.empty))
          \<and> length (entries log) = 1
          \<and> map_option err_code (error_ext (entry_response (entries log ! 0)))
              = Some (Some ''MAXREDIRECTS'')"
    using t[THEN conjunct2, THEN conjunct2, THEN conjunct2, THEN mp, OF k] .
  have x: "\<exists>req r. captureEntry ex_env ?cfg (buildHarConfig ex_options)
              (exchange_of ex_env ?cfg 1) = Inr (req, None, Some r)
         \<and> statusCode r = 302
         \<and> parseRedirectUrl ex_env (Some r) = ''http://loop.example/''"
    using c s p by (intro exI[of _ ?req] exI[of _ ?r] conjI)
  show ?thesis using f m x e by (intro conjI)
qed

text \<open>
  C4. A hop answers with a redirect (status in [300,400) and a usable Location header) and
  \<^verbatim>\<open>followRedirect\<close> is a function. Then the function is applied to the response of the hop
  and its result alone decides whether the hop is followed, whatever the depth and
  \<^verbatim>\<open>maxRedirects\<close> are, and no error is recorded on the entry. A predicate that returns
  false on the first response gives exactly one entry, without an error.
\<close>

theorem predicate_alone_decides_follow:
  assumes fr: "followRedirect cfg = FollowFn f"
    and res: "captureEntry E cfg hc (exchange_of E cfg depth) = Inr (req, err, Some r)"
    and redir: "300 \<le> statusCode r \<and> statusCode r < 400 \<and> parseRedirectUrl E (Some r) \<noteq> []"
  shows "((\<exists>e cfg' st'. hop E cfg hc st depth = Inr (e, Some (cfg', st'))) \<longleftrightarrow> f r)
    \<and> (\<exists>e n. hop E cfg hc st depth = Inr (e, n) \<and> error_ext (entry_response e) = None)
    \<and> (f r \<longrightarrow>
         (\<exists>e cfg' st'. hop E cfg hc st depth = Inr (e, Some (cfg', st'))
            \<and> url cfg' = Some (parseRedirectUrl E (Some r))
            \<and> captureEntries E cfg hc st depth =
                Option.bind (captureEntries E cfg' hc st' (Suc depth))
                  (\<lambda>x. Some (prepend_entry e x))))
    \<and> (\<not> f r \<longrightarrow>
         (\<exists>e. hop E cfg hc st depth = Inr (e, None)
            \<and> captureEntries E cfg hc st depth = Some (Resolves ([e], st))))
    \<and> (\<not> f r \<and> depth = 1 \<and> cfg = buildRequestConfig rc \<and> hc = buildHarConfig ho \<longrightarrow>
         (\<exists>log. captureHar E rc ho st = Some (Resolves (log, st)) \<and> length (entries log) = 1
            \<and> error_ext (entry_response (entries log ! 0)) = None))"
proof -
  note sr = shouldRedirect_predicate[OF fr redir, of depth]
  note h = hop_resolved[OF res, of st]
  have noerr: "\<exists>e n. hop E cfg hc st depth = Inr (e, n) \<and> error_ext (entry_response e) = None"
    by (simp add: h sr entry_error_ext)
  have stop: "\<exists>e. hop E cfg hc st depth = Inr (e, None) \<and> error_ext (entry_response e) = None"
    if "\<not> f r"
    using that by (simp add: h sr entry_error_ext)
  have go: "\<exists>e cfg' st'. hop E cfg hc st depth = Inr (e, Some (cfg', st'))
      \<and> url cfg' = Some (parseRedirectUrl E (Some r))" if "f r"
    using that by (simp add: h sr)
  have c1: "(\<exists>e cfg' st'. hop E cfg hc st depth = Inr (e, Some (cfg', st'))) \<longleftrightarrow> f r"
  proof (cases "f r")
    case True
    with go show ?thesis by blast
  next
    case False
    from stop[OF this] False show ?thesis by auto
  qed
  have c3: "f r \<longrightarrow>
         (\<exists>e cfg' st'. hop E cfg hc st depth = Inr (e, Some (cfg', st'))
            \<and> url cfg' = Some (parseRedirectUrl E (Some r))
            \<and> captureEntries E cfg hc st depth =
                Option.bind (captureEntries E cfg' hc st' (Suc depth))
                  (\<lambda>x. Some (prepend_entry e x)))"
  proof
    assume "f r"
    from go[OF this] obtain e cfg' st' where
      n: "hop E cfg hc st depth = Inr (e, Some (cfg', st'))"
         "url cfg' = Some (parseRedirectUrl E (Some r))"
      by (elim exE conjE)
    show "\<exists>e cfg' st'. hop E cfg hc st depth = Inr (e, Some (cfg', st'))
            \<and> url cfg' = Some (parseRedirectUrl E (Some r))
            \<and> captureEntries E cfg hc st depth =
                Option.bind (captureEntries E cfg' hc st' (Suc depth))
                  (\<lambda>x. Some (prepend_entry e x))"
      using n captureEntries_follow[OF n(1)]
      by (intro exI[of _ e] exI[of _ cfg'] exI[of _ st'] conjI)
  qed
  have c4: "\<not> f r \<longrightarrow>
         (\<exists>e. hop E cfg hc st depth = Inr (e, None)
            \<and> captureEntries E cfg hc st depth = Some (Resolves ([e], st)))"
  proof
    assume "\<not> f r"
    from stop[OF this] obtain e where e: "hop E cfg hc st depth = Inr (e, None)" by (elim exE conjE)
    show "\<exists>e. hop E cfg hc st depth = Inr (e, None)
            \<and> captureEntries E cfg hc st depth = Some (Resolves ([e], st))"
      using e captureEntries_stop[OF e] by (intro exI[of _ e] conjI)
  qed
  have c5: "\<not> f r \<and> depth = 1 \<and> cfg = buildRequestConfig rc \<and> hc = buildHarConfig ho \<longrightarrow>
         (\<exists>log. captureHar E rc ho st = Some (Resolves (log, st)) \<and> length (entries log) = 1
            \<and> error_ext (entry_response (entries log ! 0)) = None)"
  proof
    assume a: "\<not> f r \<and> depth = 1 \<and> cfg = buildRequestConfig rc \<and> hc = buildHarConfig ho"
    then have "\<not> f r" by simp
    from stop[OF this] obtain e where e: "hop E cfg hc st depth = Inr (e, None)"
      "error_ext (entry_response e) = None" by (elim exE conjE)
    have "hop E (buildRequestConfig rc) (buildHarConfig ho) st 1 = Inr (e, None)"
      using e(1) a by simp
    from captureHar_single[OF this] e(2)
    show "\<exists>log. captureHar E rc ho st = Some (Resolves (log, st)) \<and> length (entries log) = 1
            \<and> error_ext (entry_response (entries log ! 0)) = None"
      by simp
  qed
  show ?thesis using c1 noerr c3 c4 c5 by (intro conjI)
qed

theorem predicate_alone_decides_follow_witness:
  "followRedirect ((ex_config ''http://a.example/'')\<lparr>followRedirect := FollowFn (\<lambda>r. False)\<rparr>)
     = FollowFn (\<lambda>r. False)
   \<and> (\<exists>req r.
         captureEntry ex_env ((ex_config ''http://a.example/'')\<lparr>followRedirect := FollowFn (\<lambda>r. False)\<rparr>)
           (buildHarConfig ex_options)
           (exchange_of ex_env
              ((ex_config ''http://a.example/'')\<lparr>followRedirect := FollowFn (\<lambda>r. False)\<rparr>) 1)
          = Inr (req, None, Some r)
         \<and> statusCode r = 302
         \<and> parseRedirectUrl ex_env (Some r) = ''http://b.example/'')
   \<and> (\<exists>log. captureHar ex_env
                 (Config ((ex_config ''http://a.example/'')\<lparr>followRedirect := FollowFn (\<lambda>r. False)\<rparr>))
                 ex_options Map.empty = Some (Resolves (log, Map.empty))
          \<and> length (entries log) = 1
          \<and> error_ext (entry_response (entries log ! 0)) = None)"
proof -
  let ?cfg = "(ex_config ''http://a.example/'')\<lparr>followRedirect := FollowFn (\<lambda>r. False)\<rparr>"
  let ?req = "\<lparr>req_method = ''GET'', uri_href = ''http://a.example/''\<rparr>"
  let ?r = "mk_response (ex_head 302 ''Found'' [(''location'', ''http://b.example/'')])
              (BufBody []) ?req"
  have f: "followRedirect ?cfg = FollowFn (\<lambda>r. False)" by simp
  have c: "captureEntry ex_env ?cfg (buildHarConfig ex_options) (exchange_of ex_env ?cfg 1)
             = Inr (?req, None, Some ?r)"
    by (simp add: run_defs ex_defs)
  have s: "statusCode ?r = 302" by (simp add: mk_response_def ex_head_def)
  have p: "parseRedirectUrl ex_env (Some ?r) = ''http://b.example/''"
    by (simp add: run_defs ex_defs)
  have d: "300 \<le> statusCode ?r \<and> statusCode ?r < 400 \<and> parseRedirectUrl ex_env (Some ?r) \<noteq> []"
    unfolding s p by simp
  have k: "\<not> (\<lambda>r. False) ?r \<and> (1::nat) = 1 \<and> ?cfg = buildRequestConfig (Config ?cfg)
          \<and> buildHarConfig ex_options = buildHarConfig ex_options"
    by (simp add: buildRequestConfig_def)
  note t = predicate_alone_decides_follow[OF f c d, of Map.empty "Config ?cfg" ex_options]
  have e: "\<exists>log. captureHar ex_env (Config ?cfg) ex_options Map.empty = Some (Resolves (log, Map.empty))
          \<and> length (entries log) = 1
          \<and> error_ext (entry_response (entries log ! 0)) = None"
    using t[THEN conjunct2, THEN conjunct2, THEN conjunct2, THEN conjunct2, THEN mp, OF k] .
  have x: "\<exists>req r. captureEntry ex_env ?cfg (buildHarConfig ex_options)
              (exchange_of ex_env ?cfg 1) = Inr (req, None, Some r)
         \<and> statusCode r = 302
         \<and> parseRedirectUrl ex_env (Some r) = ''http://b.example/''"
    using c s p by (intro exI[of _ ?req] exI[of _ ?r] conjI)
  show ?thesis using f x e by (intro conjI)
qed

text \<open>
  C5. A hop whose response has a status in [300,400) but no usable Location header
  (\<^verbatim>\<open>parseRedirectUrl\<close> gives the empty string) ends the chain; its entry carries the code
  \<^verbatim>\<open>NOLOCATION\<close> and its \<^verbatim>\<open>redirectURL\<close> is the empty string.
\<close>

theorem missing_location_stops_chain:
  assumes res: "captureEntry E cfg hc (exchange_of E cfg depth) = Inr (req, err, Some r)"
    and range: "300 \<le> statusCode r \<and> statusCode r < 400"
    and noloc: "parseRedirectUrl E (Some r) = []"
  shows "\<exists>e. hop E cfg hc st depth = Inr (e, None)
    \<and> captureEntries E cfg hc st depth = Some (Resolves ([e], st))
    \<and> map_option err_code (error_ext (entry_response e)) = Some (Some ''NOLOCATION'')
    \<and> redirectURL (entry_response e) = []"
proof -
  note sr = shouldRedirect_nolocation[OF range noloc, of cfg depth]
  note h = hop_resolved[OF res, of st]
  let ?e = "buildHarEntry E req (Some nolocation_error) (Some r) hc"
  have s: "hop E cfg hc st depth = Inr (?e, None)" by (simp add: h sr)
  have e: "map_option err_code (error_ext (entry_response ?e)) = Some (Some ''NOLOCATION'')"
    by (simp add: entry_error_ext nolocation_error_def)
  have u: "redirectURL (entry_response ?e) = []"
    by (simp add: entry_redirectURL noloc)
  show ?thesis using s captureEntries_stop[OF s] e u by (intro exI[of _ ?e] conjI)
qed

theorem missing_location_stops_chain_witness:
  "(\<exists>req r.
      captureEntry ex_env (ex_config ''http://noloc.example/'') (buildHarConfig ex_options)
        (exchange_of ex_env (ex_config ''http://noloc.example/'') 1) = Inr (req, None, Some r)
      \<and> statusCode r = 302
      \<and> parseRedirectUrl ex_env (Some r) = [])
   \<and> (\<exists>e. hop ex_env (ex_config ''http://noloc.example/'') (buildHarConfig ex_options)
              Map.empty 1 = Inr (e, None)
        \<and> captureEntries ex_env (ex_config ''http://noloc.example/'') (buildHarConfig ex_options)
            Map.empty 1 = Some (Resolves ([e], Map.empty))
        \<and> map_option err_code (error_ext (entry_response e)) = Some (Some ''NOLOCATION'')
        \<and> redirectURL (entry_response e) = [])"
proof -
  let ?cfg = "ex_config ''http://noloc.example/''"
  let ?req = "\<lparr>req_method = ''GET'', uri_href = ''http://noloc.example/''\<rparr>"
  let ?r = "mk_response (ex_head 302 ''Found'' []) (BufBody []) ?req"
  have c: "captureEntry ex_env ?cfg (buildHarConfig ex_options) (exchange_of ex_env ?cfg 1)
             = Inr (?req, None, Some ?r)"
    by (simp add: run_defs ex_defs)
  have s: "statusCode ?r = 302" by (simp add: mk_response_def ex_head_def)
  have p: "parseRedirectUrl ex_env (Some ?r) = []"
    by (simp add: run_defs ex_defs)
  have d: "300 \<le> statusCode ?r \<and> statusCode ?r < 400" unfolding s by simp
  note t = missing_location_stops_chain[OF c d p, of Map.empty]
  have x: "\<exists>req r. captureEntry ex_env ?cfg (buildHarConfig ex_options)
              (exchange_of ex_env ?cfg 1) = Inr (req, None, Some r)
         \<and> statusCode r = 302
         \<and> parseRedirectUrl ex_env (Some r) = []"
    using c s p by (intro exI[of _ ?req] exI[of _ ?r] conjI)
  show ?thesis using x t by (intro conjI)
qed

text \<open>
  C6, with numbers read as the code reads them. \<^verbatim>\<open>withContent\<close> is true and
  \<^verbatim>\<open>maxContentLength\<close> is finite. If the response head arrives and its Content-Length
  header, read by \<^verbatim>\<open>parseInt\<close> as a double, is greater than the maximum (as it is when
  the header is the decimal numeral of a number up to \<open>2^53\<close> that exceeds the maximum), or
  if after some chunk that arrives the running count of body bytes, a double as well, is
  greater than the maximum (as it is when the bytes received so far number at most \<open>2^53\<close>
  and exceed the maximum), then the exchange is aborted: it settles with the size error
  and without a response, the chain ends with this hop, and the entry of the hop carries
  the code \<^verbatim>\<open>MAX_RES_BODY_SIZE\<close> and has no content text.
\<close>

theorem size_limit_aborts_exchange:
  assumes wc: "withContent hc" and mx: "maxContentLength hc = Num m"
    and tgt: "request_target cfg \<noteq> None"
    and wire: "on_wire (exchange_of E cfg depth) = Reply h chunks tail"
    and over:
      "(delivered cfg (exchange_of E cfg depth) 0
          \<and> js_gt (parseInt (map_of (head_headers h) ''content-length'')) (Num m))
       \<or> (delivered cfg (exchange_of E cfg depth) 0
          \<and> (\<exists>n. map_of (head_headers h) ''content-length'' = Some (decimal n)
                 \<and> n \<le> 9007199254740992 \<and> m < int n))
       \<or> (\<exists>k<length chunks. delivered cfg (exchange_of E cfg depth) (Suc k)
              \<and> js_gt (Some (running_count (Num 0) (take (Suc k) chunks))) (Num m))
       \<or> (\<exists>k<length chunks. delivered cfg (exchange_of E cfg depth) (Suc k)
              \<and> length (concat (take (Suc k) chunks)) \<le> 9007199254740992
              \<and> m < int (length (concat (take (Suc k) chunks))))"
  shows "(\<exists>req. captureEntry E cfg hc (exchange_of E cfg depth) = Inr (req, Some size_error, None))
    \<and> (\<exists>e. hop E cfg hc st depth = Inr (e, None)
          \<and> captureEntries E cfg hc st depth = Some (Resolves ([e], st))
          \<and> map_option err_code (error_ext (entry_response e)) = Some (Some ''MAX_RES_BODY_SIZE'')
          \<and> content_text (content (entry_response e)) = None)"
proof -
  let ?sc = "exchange_of E cfg depth"
  obtain t where t: "request_target cfg = Some t" using tgt by auto
  let ?req = "\<lparr>req_method = (case cfg_method cfg of None \<Rightarrow> ''GET'' | Some m \<Rightarrow> m),
               uri_href = url_href E t\<rparr>"
  let ?hv = "map_of (head_headers h) ''content-length''"
  have dl: "data_listener hc" using wc mx by (simp add: data_listener_def)
  have t0: "globalTimeout cfg ?sc \<noteq> Some 0"
    using over by (auto simp: delivered_def split: option.splits)
  have two: "(delivered cfg ?sc 0 \<and> js_gt (parseInt ?hv) (Num m))
       \<or> (\<exists>k<length chunks. delivered cfg ?sc (Suc k)
              \<and> js_gt (Some (running_count (Num 0) (take (Suc k) chunks))) (Num m))"
  proof -
    consider
      (a) "delivered cfg ?sc 0 \<and> js_gt (parseInt ?hv) (Num m)"
      | (b) "delivered cfg ?sc 0
          \<and> (\<exists>n. ?hv = Some (decimal n) \<and> n \<le> 9007199254740992 \<and> m < int n)"
      | (c) "\<exists>k<length chunks. delivered cfg ?sc (Suc k)
              \<and> js_gt (Some (running_count (Num 0) (take (Suc k) chunks))) (Num m)"
      | (d) "\<exists>k<length chunks. delivered cfg ?sc (Suc k)
              \<and> length (concat (take (Suc k) chunks)) \<le> 9007199254740992
              \<and> m < int (length (concat (take (Suc k) chunks)))"
      using over by argo
    then show ?thesis
    proof cases
      case a
      then show ?thesis by simp
    next
      case b
      then obtain n where n: "?hv = Some (decimal n)" "n \<le> 9007199254740992" "m < int n"
        and d: "delivered cfg ?sc 0" by auto
      have "js_gt (parseInt ?hv) (Num m)"
        unfolding n(1) parseInt_decimal round_double_exact[OF n(2)] using n(3) by simp
      with d show ?thesis by simp
    next
      case c
      then show ?thesis by simp
    next
      case d
      then obtain k where k: "k < length chunks" "delivered cfg ?sc (Suc k)"
        "length (concat (take (Suc k) chunks)) \<le> 9007199254740992"
        "m < int (length (concat (take (Suc k) chunks)))" by auto
      have "running_count (Num 0) (take (Suc k) chunks)
              = Num (0 + int (length (concat (take (Suc k) chunks))))"
        using k(3) by (intro running_count_exact) auto
      then have "js_gt (Some (running_count (Num 0) (take (Suc k) chunks))) (Num m)"
        using k(4) by simp
      with k(1) k(2) show ?thesis by auto
    qed
  qed
  have rp: "request_promise E cfg hc ?req ?sc = Rejected \<lparr>cause = size_error, rej_response = None\<rparr>"
  proof (cases "js_gt (parseInt ?hv) (Num m)")
    case True
    then show ?thesis using t0 wire wc mx by (simp add: request_promise_def onResponse_def)
  next
    case False
    with two obtain k where k: "k < length chunks" "delivered cfg ?sc (Suc k)"
      "js_gt (Some (running_count (Num 0) (take (Suc k) chunks))) (Num m)" by auto
    have b: "case map_option (\<lambda>k. k - 1) (globalTimeout cfg ?sc) of None \<Rightarrow> True | Some t \<Rightarrow> k < t"
      using k(2) by (auto simp: delivered_def split: option.splits)
    have "stream hc (map_option (\<lambda>k. k - 1) (globalTimeout cfg ?sc)) (Num 0) chunks tail
            = Failed size_error"
      using stream_size_error[OF dl mx k(1) b k(3)] .
    then show ?thesis using False t0 wire wc mx by (simp add: request_promise_def onResponse_def)
  qed
  have ce: "captureEntry E cfg hc ?sc = Inr (?req, Some size_error, None)"
    using rp t by (simp add: captureEntry_def)
  note hr = hop_rejected[OF ce, of st]
  let ?e = "buildHarEntry E ?req (Some size_error) None hc"
  have e: "map_option err_code (error_ext (entry_response ?e)) = Some (Some ''MAX_RES_BODY_SIZE'')"
    by (simp add: entry_error_ext size_error_def)
  have c: "content_text (content (entry_response ?e)) = None"
    by (simp add: buildHarEntry_def buildHarResponse_def buildHarContent_def)
  have x: "\<exists>req. captureEntry E cfg hc ?sc = Inr (req, Some size_error, None)"
    using ce by (intro exI[of _ ?req])
  have y: "\<exists>e. hop E cfg hc st depth = Inr (e, None)
          \<and> captureEntries E cfg hc st depth = Some (Resolves ([e], st))
          \<and> map_option err_code (error_ext (entry_response e)) = Some (Some ''MAX_RES_BODY_SIZE'')
          \<and> content_text (content (entry_response e)) = None"
    using hr captureEntries_stop[OF hr] e c by (intro exI[of _ ?e] conjI)
  show ?thesis using x y by (intro conjI)
qed


theorem size_limit_aborts_exchange_witness:
  "withContent (buildHarConfig \<lparr>opt_withContent = None, opt_maxContentLength = Some (Num 2)\<rparr>)
   \<and> maxContentLength (buildHarConfig \<lparr>opt_withContent = None, opt_maxContentLength = Some (Num 2)\<rparr>)
       = Num 2
   \<and> request_target (ex_config ''http://stream.example/'') = Some ''http://stream.example/''
   \<and> on_wire (exchange_of ex_env (ex_config ''http://stream.example/'') 1)
       = Reply (ex_head 200 ''OK'' []) [[0x4D, 0x61], [0x6E]] None
   \<and> delivered (ex_config ''http://stream.example/'')
        (exchange_of ex_env (ex_config ''http://stream.example/'') 1) (Suc 1)
   \<and> length (concat (take (Suc 1) [[0x4D, 0x61], [0x6E :: byte]])) \<le> 9007199254740992
   \<and> (2::int) < int (length (concat (take (Suc 1) [[0x4D, 0x61], [0x6E :: byte]])))
   \<and> (\<exists>e. hop ex_env (ex_config ''http://stream.example/'')
              (buildHarConfig \<lparr>opt_withContent = None, opt_maxContentLength = Some (Num 2)\<rparr>)
              Map.empty 1 = Inr (e, None)
          \<and> captureEntries ex_env (ex_config ''http://stream.example/'')
              (buildHarConfig \<lparr>opt_withContent = None, opt_maxContentLength = Some (Num 2)\<rparr>)
              Map.empty 1 = Some (Resolves ([e], Map.empty))
          \<and> map_option err_code (error_ext (entry_response e)) = Some (Some ''MAX_RES_BODY_SIZE'')
          \<and> content_text (content (entry_response e)) = None)
   \<and> request_target (ex_config ''http://b.example/'') = Some ''http://b.example/''
   \<and> on_wire (exchange_of ex_env (ex_config ''http://b.example/'') 1)
       = Reply (ex_head 200 ''OK'' [(''content-type'', ''image/png''), (''content-length'', ''3'')])
           [[0x4D, 0x61], [0x6E]] None
   \<and> delivered (ex_config ''http://b.example/'')
        (exchange_of ex_env (ex_config ''http://b.example/'') 1) 0
   \<and> map_of (head_headers
          (ex_head 200 ''OK'' [(''content-type'', ''image/png''), (''content-length'', ''3'')]))
          ''content-length'' = Some (decimal 3)
   \<and> (3::nat) \<le> 9007199254740992 \<and> (2::int) < int 3
   \<and> (\<exists>e. hop ex_env (ex_config ''http://b.example/'')
              (buildHarConfig \<lparr>opt_withContent = None, opt_maxContentLength = Some (Num 2)\<rparr>)
              Map.empty 1 = Inr (e, None)
          \<and> captureEntries ex_env (ex_config ''http://b.example/'')
              (buildHarConfig \<lparr>opt_withContent = None, opt_maxContentLength = Some (Num 2)\<rparr>)
              Map.empty 1 = Some (Resolves ([e], Map.empty))
          \<and> map_option err_code (error_ext (entry_response e)) = Some (Some ''MAX_RES_BODY_SIZE'')
          \<and> content_text (content (entry_response e)) = None)"
proof -
  let ?hc = "buildHarConfig \<lparr>opt_withContent = None, opt_maxContentLength = Some (Num 2)\<rparr>"
  let ?s = "ex_config ''http://stream.example/''"
  let ?b = "ex_config ''http://b.example/''"
  let ?hb = "ex_head 200 ''OK'' [(''content-type'', ''image/png''), (''content-length'', ''3'')]"
  let ?cs = "[[0x4D, 0x61], [0x6E :: byte]]"
  have w: "withContent ?hc" by (simp add: buildHarConfig_def)
  have m: "maxContentLength ?hc = Num 2" by (simp add: buildHarConfig_def)
  have rs: "request_target ?s = Some ''http://stream.example/''"
    by (simp add: request_target_def ex_config_def)
  have rs': "request_target ?s \<noteq> None" unfolding rs by simp
  have ws: "on_wire (exchange_of ex_env ?s 1) = Reply (ex_head 200 ''OK'' []) ?cs None"
    by (simp add: run_defs ex_defs)
  have ds: "delivered ?s (exchange_of ex_env ?s 1) (Suc 1)"
    by (simp add: delivered_def globalTimeout_def ex_defs)
  have bs: "length (concat (take (Suc 1) ?cs)) \<le> 9007199254740992" by simp
  have ls: "(2::int) < int (length (concat (take (Suc 1) ?cs)))" by simp
  have ks: "\<exists>k<length ?cs. delivered ?s (exchange_of ex_env ?s 1) (Suc k)
              \<and> length (concat (take (Suc k) ?cs)) \<le> 9007199254740992
              \<and> 2 < int (length (concat (take (Suc k) ?cs)))"
    using ds bs ls by (intro exI[of _ 1] conjI) simp
  note ts = size_limit_aborts_exchange[OF w m rs' ws disjI2[OF disjI2[OF disjI2[OF ks]]],
      of Map.empty]
  have rb: "request_target ?b = Some ''http://b.example/''"
    by (simp add: request_target_def ex_config_def)
  have rb': "request_target ?b \<noteq> None" unfolding rb by simp
  have wb: "on_wire (exchange_of ex_env ?b 1) = Reply ?hb ?cs None"
    by (simp add: run_defs ex_defs)
  have db: "delivered ?b (exchange_of ex_env ?b 1) 0"
    by (simp add: delivered_def globalTimeout_def ex_defs)
  have hb: "map_of (head_headers ?hb) ''content-length'' = Some (decimal 3)"
    by (simp add: ex_head_def decimal.simps)
  have n3: "(3::nat) \<le> 9007199254740992" by simp
  have m3: "(2::int) < int 3" by simp
  have kb: "\<exists>n. map_of (head_headers ?hb) ''content-length'' = Some (decimal n)
                 \<and> n \<le> 9007199254740992 \<and> 2 < int n"
    using hb n3 m3 by (intro exI[of _ 3] conjI)
  note tb = size_limit_aborts_exchange[OF w m rb' wb disjI2[OF disjI1[OF conjI[OF db kb]]],
      of Map.empty]
  show ?thesis
    using w m rs ws ds bs ls ts[THEN conjunct2] rb wb db hb n3 m3 tb[THEN conjunct2]
    by (intro conjI)
qed

text \<open>
  C6 as stated, for every declared length: with a maximum of \<open>2^53\<close> and a Content-Length
  header of \<^verbatim>\<open>9007199254740993\<close>, which is \<open>2^53 + 1\<close>, the declared length exceeds the maximum,
  but \<^verbatim>\<open>parseInt\<close> reads the header as \<open>2^53\<close>, which is not greater than the maximum: the
  exchange is not aborted and the capture resolves with the status 200, the body and no
  error.
\<close>

theorem declared_length_over_maximum_not_aborted:
  "withContent (buildHarConfig
      \<lparr>opt_withContent = Some True, opt_maxContentLength = Some (Num 9007199254740992)\<rparr>)
   \<and> maxContentLength (buildHarConfig
      \<lparr>opt_withContent = Some True, opt_maxContentLength = Some (Num 9007199254740992)\<rparr>)
       = Num 9007199254740992
   \<and> on_wire (exchange_of ex_env (buildRequestConfig (UrlString ''http://huge.example/'')) 1)
       = Reply (ex_head 200 ''OK'' [(''content-length'', ''9007199254740993'')])
           [[0x4D, 0x61], [0x6E]] None
   \<and> delivered (buildRequestConfig (UrlString ''http://huge.example/''))
        (exchange_of ex_env (buildRequestConfig (UrlString ''http://huge.example/'')) 1) 0
   \<and> map_of (head_headers (ex_head 200 ''OK'' [(''content-length'', ''9007199254740993'')]))
        ''content-length'' = Some (decimal 9007199254740993)
   \<and> (9007199254740992::int) < int 9007199254740993
   \<and> parseInt (Some ''9007199254740993'') = Some (Num 9007199254740992)
   \<and> (\<exists>log. captureHar ex_env (UrlString ''http://huge.example/'')
                \<lparr>opt_withContent = Some True, opt_maxContentLength = Some (Num 9007199254740992)\<rparr>
                Map.empty = Some (Resolves (log, Map.empty))
          \<and> length (entries log) = 1
          \<and> status (entry_response (entries log ! 0)) = 200
          \<and> error_ext (entry_response (entries log ! 0)) = None
          \<and> content_text (content (entry_response (entries log ! 0))) = Some ''TWFu'')"
proof -
  let ?ho = "\<lparr>opt_withContent = Some True, opt_maxContentLength = Some (Num 9007199254740992)\<rparr>"
  let ?hc = "buildHarConfig ?ho"
  let ?cfg = "buildRequestConfig (UrlString ''http://huge.example/'')"
  let ?h = "ex_head 200 ''OK'' [(''content-length'', ''9007199254740993'')]"
  let ?req = "\<lparr>req_method = ''GET'', uri_href = ''http://huge.example/''\<rparr>"
  let ?r = "mk_response ?h (BufBody [0x4D, 0x61, 0x6E]) ?req"
  have w: "withContent ?hc" by (simp add: buildHarConfig_def)
  have m: "maxContentLength ?hc = Num 9007199254740992" by (simp add: buildHarConfig_def)
  have wi: "on_wire (exchange_of ex_env ?cfg 1) = Reply ?h [[0x4D, 0x61], [0x6E]] None"
    by (simp add: run_defs ex_defs buildRequestConfig_def)
  have d: "delivered ?cfg (exchange_of ex_env ?cfg 1) 0"
    by (simp add: delivered_def globalTimeout_def run_defs ex_defs buildRequestConfig_def)
  have dec: "decimal 9007199254740993 = ''9007199254740993''"
    by (simp add: decimal.simps)
  have hv: "map_of (head_headers ?h) ''content-length'' = Some (decimal 9007199254740993)"
    unfolding dec by (simp add: ex_head_def)
  have lt: "(9007199254740992::int) < int 9007199254740993" by simp
  have p: "parseInt (Some ''9007199254740993'') = Some (Num 9007199254740992)"
    using parseInt_decimal[of 9007199254740993] unfolding dec round_double_tie .
  have nogt: "\<not> js_gt (parseInt (map_of (head_headers ?h) ''content-length'')) (maxContentLength ?hc)"
    unfolding hv dec p m by simp
  have on: "onResponse ?hc ?h = Continue"
    using w nogt by (simp add: onResponse_def)
  have st: "stream ?hc None (Num 0) [[0x4D, 0x61], [0x6E]] None = Ended"
    by (simp add: data_listener_def w m onData_def round_double_int_exact)
  have rp: "request_promise ex_env ?cfg ?hc ?req (exchange_of ex_env ?cfg 1) = Resolved ?r"
    unfolding request_promise_def wi
    by (simp add: on st globalTimeout_def buildRequestConfig_def ex_env_def del: stream.simps)
  have tg: "request_target ?cfg = Some ''http://huge.example/''"
    by (simp add: request_target_def buildRequestConfig_def)
  have cm: "(case cfg_method ?cfg of None \<Rightarrow> ''GET'' | Some m \<Rightarrow> m) = ''GET''"
    by (simp add: buildRequestConfig_def)
  have hr: "url_href ex_env ''http://huge.example/'' = ''http://huge.example/''"
    by (simp add: ex_env_def)
  have ce: "captureEntry ex_env ?cfg ?hc (exchange_of ex_env ?cfg 1) = Inr (?req, None, Some ?r)"
    unfolding captureEntry_def tg by (simp only: option.case Let_def cm hr rp settled.case)
  have sr: "shouldRedirect ex_env (Some ?r) ?cfg 1 = (False, None)"
    by (simp add: shouldRedirect_def mk_response_def ex_head_def)
  have hp: "hop ex_env ?cfg ?hc Map.empty 1 = Inr (buildHarEntry ex_env ?req None (Some ?r) ?hc, None)"
    unfolding hop_resolved[OF ce] sr by simp
  note ch = captureHar_single[OF hp]
  have s: "status (entry_response (buildHarEntry ex_env ?req None (Some ?r) ?hc)) = 200"
    by (simp add: buildHarEntry_def buildHarResponse_def mk_response_def ex_head_def)
  have e: "error_ext (entry_response (buildHarEntry ex_env ?req None (Some ?r) ?hc)) = None"
    by (simp add: entry_error_ext)
  have t: "content_text (content (entry_response (buildHarEntry ex_env ?req None (Some ?r) ?hc)))
             = Some ''TWFu''"
    by (simp add: buildHarEntry_def buildHarResponse_def buildHarContent_def mk_response_def w
          Let_def base64_unfold sextet_char_def base64_alphabet_def)
  have x: "\<exists>log. captureHar ex_env (UrlString ''http://huge.example/'') ?ho Map.empty
                = Some (Resolves (log, Map.empty))
          \<and> length (entries log) = 1
          \<and> status (entry_response (entries log ! 0)) = 200
          \<and> error_ext (entry_response (entries log ! 0)) = None
          \<and> content_text (content (entry_response (entries log ! 0))) = Some ''TWFu''"
    using ch s e t by auto
  show ?thesis using w m wi d hv lt p x by (intro conjI)
qed

text \<open>
  C7. With \<^verbatim>\<open>withContent\<close> false the body is never read: the outcome of an exchange is the
  one it has when no chunk and no body error follow the head, and it is the same for every
  \<^verbatim>\<open>maxContentLength\<close>. The content descriptor has no text, for every response and so
  for every entry of a capture. No size check is made: unless the network itself fails
  with the code \<^verbatim>\<open>MAX_RES_BODY_SIZE\<close>, no entry of a capture carries that code.
\<close>

theorem no_content_skips_body_and_size_check:
  assumes nc: "\<not> withContent hc"
  shows "(on_wire sc = Reply h chunks tail \<longrightarrow>
            captureEntry E cfg hc sc = captureEntry E cfg hc (sc\<lparr>on_wire := Reply h [] None\<rparr>))
    \<and> captureEntry E cfg (hc\<lparr>maxContentLength := m\<rparr>) sc = captureEntry E cfg hc sc
    \<and> content_text (buildHarContent E res hc) = None
    \<and> (captureEntries E cfg hc st depth = Some (Resolves (es, st')) \<longrightarrow>
         (\<forall>e\<in>set es. content_text (content (entry_response e)) = None))
    \<and> (captureEntries E cfg hc st depth = Some (Resolves (es, st'))
         \<and> (\<forall>d u e. on_wire (network E d u) = ConnFail e
                      \<longrightarrow> err_code e \<noteq> Some ''MAX_RES_BODY_SIZE'') \<longrightarrow>
         (\<forall>e\<in>set es. map_option err_code (error_ext (entry_response e))
                        \<noteq> Some (Some ''MAX_RES_BODY_SIZE'')))"
proof -
  have c1: "on_wire sc = Reply h chunks tail \<longrightarrow>
            captureEntry E cfg hc sc = captureEntry E cfg hc (sc\<lparr>on_wire := Reply h [] None\<rparr>)"
    by (auto simp: captureEntry_no_content[OF nc] globalTimeout_def Let_def split: option.splits)
  have nc': "\<not> withContent (hc\<lparr>maxContentLength := m\<rparr>)" using nc by simp
  have c2: "captureEntry E cfg (hc\<lparr>maxContentLength := m\<rparr>) sc = captureEntry E cfg hc sc"
    by (simp only: captureEntry_no_content[OF nc] captureEntry_no_content[OF nc'])
  have c3: "content_text (buildHarContent E res hc) = None"
    using nc by (rule buildHarContent_no_text)
  have c4: "captureEntries E cfg hc st depth = Some (Resolves (es, st')) \<longrightarrow>
         (\<forall>e\<in>set es. content_text (content (entry_response e)) = None)"
  proof (intro impI ballI)
    fix e assume a: "captureEntries E cfg hc st depth = Some (Resolves (es, st'))" "e \<in> set es"
    from entries_are_hops[OF a] obtain c s k n where e: "hop E c hc s k = Inr (e, n)" by auto
    show "content_text (content (entry_response e)) = None"
      using hop_entry_no_text[OF nc e] .
  qed
  have c5: "captureEntries E cfg hc st depth = Some (Resolves (es, st'))
         \<and> (\<forall>d u e. on_wire (network E d u) = ConnFail e
                      \<longrightarrow> err_code e \<noteq> Some ''MAX_RES_BODY_SIZE'') \<longrightarrow>
         (\<forall>e\<in>set es. map_option err_code (error_ext (entry_response e))
                        \<noteq> Some (Some ''MAX_RES_BODY_SIZE''))"
  proof (intro impI ballI)
    fix e
    assume a: "captureEntries E cfg hc st depth = Some (Resolves (es, st'))
         \<and> (\<forall>d u e. on_wire (network E d u) = ConnFail e
                      \<longrightarrow> err_code e \<noteq> Some ''MAX_RES_BODY_SIZE'')"
      and m: "e \<in> set es"
    from a have a1: "captureEntries E cfg hc st depth = Some (Resolves (es, st'))" by simp
    from entries_are_hops[OF a1 m] obtain c s k n where e: "hop E c hc s k = Inr (e, n)" by auto
    show "map_option err_code (error_ext (entry_response e)) \<noteq> Some (Some ''MAX_RES_BODY_SIZE'')"
    proof
      assume "map_option err_code (error_ext (entry_response e)) = Some (Some ''MAX_RES_BODY_SIZE'')"
      then obtain x where x: "error_ext (entry_response e) = Some x"
        "err_code x = Some ''MAX_RES_BODY_SIZE''" by auto
      from hop_error_sources[OF nc e x(1)]
      have "x = timeout_error \<or> x = nolocation_error \<or> x = maxredirects_error
         \<or> on_wire (exchange_of E c k) = ConnFail x" .
      then show False using x(2) a
        by (auto simp: timeout_error_def nolocation_error_def maxredirects_error_def
              exchange_of_def)
    qed
  qed
  show ?thesis using c1 c2 c3 c4 c5 by (intro conjI)
qed

theorem no_content_skips_body_and_size_check_witness:
  "\<not> withContent (buildHarConfig \<lparr>opt_withContent = Some False, opt_maxContentLength = Some (Num 2)\<rparr>)
   \<and> on_wire (network ex_env (Suc 1) ''http://b.example/'')
       = Reply (ex_head 200 ''OK'' [(''content-type'', ''image/png''), (''content-length'', ''3'')])
           [[0x4D, 0x61], [0x6E]] None
   \<and> captureEntry ex_env (ex_config ''http://b.example/'')
        (buildHarConfig \<lparr>opt_withContent = Some False, opt_maxContentLength = Some (Num 2)\<rparr>)
        (network ex_env (Suc 1) ''http://b.example/'')
       = captureEntry ex_env (ex_config ''http://b.example/'')
           (buildHarConfig \<lparr>opt_withContent = Some False, opt_maxContentLength = Some (Num 2)\<rparr>)
           ((network ex_env (Suc 1) ''http://b.example/'')
              \<lparr>on_wire := Reply (ex_head 200 ''OK''
                   [(''content-type'', ''image/png''), (''content-length'', ''3'')]) [] None\<rparr>)
   \<and> (\<exists>e1 e2.
         captureEntries ex_env (ex_config ''http://a.example/'')
           (buildHarConfig \<lparr>opt_withContent = Some False, opt_maxContentLength = Some (Num 2)\<rparr>)
           Map.empty 1 = Some (Resolves ([e1, e2], Map.empty))
         \<and> content_text (content (entry_response e1)) = None
         \<and> content_text (content (entry_response e2)) = None
         \<and> status (entry_response e2) = 200
         \<and> map_option err_code (error_ext (entry_response e2))
             \<noteq> Some (Some ''MAX_RES_BODY_SIZE''))"
proof -
  let ?hc = "buildHarConfig \<lparr>opt_withContent = Some False, opt_maxContentLength = Some (Num 2)\<rparr>"
  let ?a = "ex_config ''http://a.example/''"
  let ?b = "ex_config ''http://b.example/''"
  let ?hb = "ex_head 200 ''OK'' [(''content-type'', ''image/png''), (''content-length'', ''3'')]"
  have nc: "\<not> withContent ?hc" by (simp add: buildHarConfig_def)
  have w: "on_wire (network ex_env (Suc 1) ''http://b.example/'') = Reply ?hb [[0x4D, 0x61], [0x6E]] None"
    by (simp add: ex_defs)
  obtain e1 where h1: "hop ex_env ?a ?hc Map.empty 1 = Inr (e1, Some (?b, Map.empty))"
    by (simp add: run_defs ex_defs)
  obtain e2 where h2: "hop ex_env ?b ?hc Map.empty (Suc 1) = Inr (e2, None)"
    and s2: "status (entry_response e2) = 200"
    by (simp add: run_defs ex_defs)
  have ce: "captureEntries ex_env ?a ?hc Map.empty 1 = Some (Resolves ([e1, e2], Map.empty))"
    unfolding captureEntries_follow[OF h1] captureEntries_stop[OF h2] by simp
  have net: "\<forall>d u e. on_wire (network ex_env d u) = ConnFail e
                      \<longrightarrow> err_code e \<noteq> Some ''MAX_RES_BODY_SIZE''"
    by (auto simp: ex_defs split: if_splits)
  note t = no_content_skips_body_and_size_check[OF nc,
      where E = ex_env and es = "[e1, e2]" and st = Map.empty and st' = Map.empty
        and depth = 1 and cfg = ?a]
  note t' = no_content_skips_body_and_size_check[OF nc,
      where E = ex_env and cfg = ?b and sc = "network ex_env (Suc 1) ''http://b.example/''"
        and h = ?hb and chunks = "[[0x4D, 0x61], [0x6E]]" and tail = None]
  have r1: "captureEntry ex_env ?b ?hc (network ex_env (Suc 1) ''http://b.example/'')
       = captureEntry ex_env ?b ?hc
           ((network ex_env (Suc 1) ''http://b.example/'')\<lparr>on_wire := Reply ?hb [] None\<rparr>)"
    using t'[THEN conjunct1, THEN mp, OF w] .
  have all: "\<forall>e\<in>set [e1, e2]. content_text (content (entry_response e)) = None"
    using t[THEN conjunct2, THEN conjunct2, THEN conjunct2, THEN conjunct1, THEN mp, OF ce] .
  have all2: "\<forall>e\<in>set [e1, e2]. map_option err_code (error_ext (entry_response e))
                        \<noteq> Some (Some ''MAX_RES_BODY_SIZE'')"
    using t[THEN conjunct2, THEN conjunct2, THEN conjunct2, THEN conjunct2, THEN mp,
            OF conjI[OF ce net]] .
  have x1: "content_text (content (entry_response e1)) = None" using all by simp
  have x2: "content_text (content (entry_response e2)) = None" using all by simp
  have x3: "map_option err_code (error_ext (entry_response e2)) \<noteq> Some (Some ''MAX_RES_BODY_SIZE'')"
    using all2 by simp
  have ex: "\<exists>e1 e2. captureEntries ex_env ?a ?hc Map.empty 1 = Some (Resolves ([e1, e2], Map.empty))
         \<and> content_text (content (entry_response e1)) = None
         \<and> content_text (content (entry_response e2)) = None
         \<and> status (entry_response e2) = 200
         \<and> map_option err_code (error_ext (entry_response e2))
             \<noteq> Some (Some ''MAX_RES_BODY_SIZE'')"
    using ce x1 x2 s2 x3 by (intro exI[of _ e1] exI[of _ e2] conjI)
  show ?thesis using nc w r1 ex by (intro conjI)
qed

text \<open>
  C8 says that the timer of an exchange is cancelled once the exchange settles, whatever
  the outcome. The timer does abort an exchange that is not over when it expires, and the
  entry then carries the code \<^verbatim>\<open>ETIMEDOUT\<close> (\<open>timer_expiry_recorded\<close>). But it is cleared
  only by the listener for \<^verbatim>\<open>'end'\<close>, and a request that fails before any response emits
  \<^verbatim>\<open>'error'\<close> without \<^verbatim>\<open>'end'\<close> (\<open>timer_survives_connection_failure\<close>). Here the caller
  requests \<^verbatim>\<open>down.example\<close>, which refuses the connection, with a timeout of 5000
  milliseconds: the capture resolves with one entry of status \<open>-1\<close> and the code
  \<^verbatim>\<open>ECONNREFUSED\<close>, and the timer is still armed, so that its callback runs after the
  exchange has settled.
\<close>

theorem timer_left_armed_after_connection_failure:
  "timeout ((ex_config ''http://down.example/'')\<lparr>timeout := Some 5000\<rparr>) = Some 5000
   \<and> on_wire (exchange_of ex_env ((ex_config ''http://down.example/'')\<lparr>timeout := Some 5000\<rparr>) 1)
       = ConnFail \<lparr>err_message = ''connect ECONNREFUSED'', err_code = Some ''ECONNREFUSED''\<rparr>
   \<and> (\<exists>log. captureHar ex_env (Config ((ex_config ''http://down.example/'')\<lparr>timeout := Some 5000\<rparr>))
                ex_options Map.empty = Some (Resolves (log, Map.empty))
          \<and> length (entries log) = 1
          \<and> status (entry_response (entries log ! 0)) = - 1
          \<and> map_option err_code (error_ext (entry_response (entries log ! 0)))
               = Some (Some ''ECONNREFUSED''))
   \<and> timer_after ((ex_config ''http://down.example/'')\<lparr>timeout := Some 5000\<rparr>)
        (buildHarConfig ex_options)
        (exchange_of ex_env ((ex_config ''http://down.example/'')\<lparr>timeout := Some 5000\<rparr>) 1)
       = Armed"
proof -
  let ?cfg = "(ex_config ''http://down.example/'')\<lparr>timeout := Some 5000\<rparr>"
  let ?hc = "buildHarConfig ex_options"
  let ?x = "\<lparr>err_message = ''connect ECONNREFUSED'', err_code = Some ''ECONNREFUSED''\<rparr>"
  have t: "timeout ?cfg = Some 5000" by simp
  have w: "on_wire (exchange_of ex_env ?cfg 1) = ConnFail ?x"
    by (simp add: run_defs ex_defs)
  obtain e where h: "hop ex_env (buildRequestConfig (Config ?cfg)) ?hc Map.empty 1 = Inr (e, None)"
    and s: "status (entry_response e) = - 1"
    and c: "map_option err_code (error_ext (entry_response e)) = Some (Some ''ECONNREFUSED'')"
    by (simp add: run_defs ex_defs)
  have x: "\<exists>log. captureHar ex_env (Config ?cfg) ex_options Map.empty
                = Some (Resolves (log, Map.empty))
          \<and> length (entries log) = 1
          \<and> status (entry_response (entries log ! 0)) = - 1
          \<and> map_option err_code (error_ext (entry_response (entries log ! 0)))
               = Some (Some ''ECONNREFUSED'')"
    using captureHar_single[OF h] s c by simp
  have a: "timer_after ?cfg ?hc (exchange_of ex_env ?cfg 1) = Armed"
    by (simp add: timer_after_def run_defs ex_defs)
  show ?thesis using t w x a by (intro conjI)
qed

text \<open>
  C9 says that following a redirect leaves the caller's configuration and its headers
  mapping unchanged. The next configuration is a copy of the previous one with a new
  \<^verbatim>\<open>url\<close> (\<open>hop_next\<close>), but the copy shares the headers object, and the Host header is
  written through it. Here the caller passes the headers \<^verbatim>\<open>Accept\<close> and \<^verbatim>\<open>Host: a.example\<close>
  at address 0 and requests \<^verbatim>\<open>a.example\<close>, which redirects to \<^verbatim>\<open>b.example\<close>: after the capture
  the caller's own headers object holds \<^verbatim>\<open>Host: b.example\<close>.
\<close>

theorem host_rewrite_changes_caller_headers:
  "\<exists>log. captureHar ex_env (Config ((ex_config ''http://a.example/'')\<lparr>headers := Some 0\<rparr>))
            ex_options [0 \<mapsto> [(''Accept'', Some ''*/*''), (''Host'', Some ''a.example'')]]
          = Some (Resolves
                   (log, [0 \<mapsto> [(''Accept'', Some ''*/*''), (''Host'', Some ''b.example'')]]))
        \<and> length (entries log) = 2"
proof -
  let ?hc = "buildHarConfig ex_options"
  let ?a = "(ex_config ''http://a.example/'')\<lparr>headers := Some 0\<rparr>"
  let ?b = "(ex_config ''http://b.example/'')\<lparr>headers := Some 0\<rparr>"
  let ?st = "[0 \<mapsto> [(''Accept'', Some ''*/*''), (''Host'', Some ''a.example'')]]"
  let ?st' = "[0 \<mapsto> [(''Accept'', Some ''*/*''), (''Host'', Some ''b.example'')]]"
  obtain e1 where h1: "hop ex_env ?a ?hc ?st 1 = Inr (e1, Some (?b, ?st'))"
    by (simp add: run_defs ex_defs)
  obtain e2 where h2: "hop ex_env ?b ?hc ?st' (Suc 1) = Inr (e2, None)"
    by (simp add: run_defs ex_defs js_gt_Infinity)
  have ce: "captureEntries ex_env ?a ?hc ?st 1 = Some (Resolves ([e1, e2], ?st'))"
    unfolding captureEntries_follow[OF h1] captureEntries_stop[OF h2] by simp
  show ?thesis using ce by (simp add: captureHar_def buildRequestConfig_def)
qed

text \<open>
  C10. For every binary (Buffer) response body captured with \<^verbatim>\<open>withContent\<close> true, the
  content descriptor of the entry has \<^verbatim>\<open>encoding\<close> equal to \<^verbatim>\<open>'base64'\<close>, decoding
  \<^verbatim>\<open>content.text\<close> from base64 gives back the bytes of the body, and \<^verbatim>\<open>content.size\<close> is the
  number of bytes of the body.
\<close>

theorem binary_body_base64_roundtrip:
  assumes "body r = BufBody bs" and "withContent harConfig"
  shows "content_encoding (content (entry_response (buildHarEntry E req err (Some r) harConfig)))
           = Some ''base64''
       \<and> (\<exists>t. content_text (content (entry_response (buildHarEntry E req err (Some r) harConfig)))
                 = Some t \<and> base64_decode t = bs)
       \<and> content_size (content (entry_response (buildHarEntry E req err (Some r) harConfig)))
           = length bs"
  using assms
  by (simp add: buildHarEntry_def buildHarResponse_def buildHarContent_def Let_def
      base64_roundtrip)

theorem binary_body_base64_roundtrip_witness:
  "body (mk_response (ex_head 200 ''OK'' []) (BufBody [0x4D, 0x61, 0x6E]) \<lparr>req_method = ''GET'', uri_href = ''http://b.example/''\<rparr>)
     = BufBody [0x4D, 0x61, 0x6E]
   \<and> withContent (buildHarConfig ex_options)
   \<and> content_text (content (entry_response (buildHarEntry ex_env \<lparr>req_method = ''GET'', uri_href = ''http://b.example/''\<rparr> None
         (Some (mk_response (ex_head 200 ''OK'' []) (BufBody [0x4D, 0x61, 0x6E]) \<lparr>req_method = ''GET'', uri_href = ''http://b.example/''\<rparr>))
         (buildHarConfig ex_options)))) = Some ''TWFu''
   \<and> base64_decode ''TWFu'' = [0x4D, 0x61, 0x6E]
   \<and> content_encoding (content (entry_response (buildHarEntry ex_env \<lparr>req_method = ''GET'', uri_href = ''http://b.example/''\<rparr> None
         (Some (mk_response (ex_head 200 ''OK'' []) (BufBody [0x4D, 0x61, 0x6E]) \<lparr>req_method = ''GET'', uri_href = ''http://b.example/''\<rparr>))
         (buildHarConfig ex_options)))) = Some ''base64''
   \<and> content_size (content (entry_response (buildHarEntry ex_env \<lparr>req_method = ''GET'', uri_href = ''http://b.example/''\<rparr> None
         (Some (mk_response (ex_head 200 ''OK'' []) (BufBody [0x4D, 0x61, 0x6E]) \<lparr>req_method = ''GET'', uri_href = ''http://b.example/''\<rparr>))
         (buildHarConfig ex_options)))) = 3"
proof -
  let ?req = "\<lparr>req_method = ''GET'', uri_href = ''http://b.example/''\<rparr>"
  let ?r = "mk_response (ex_head 200 ''OK'' []) (BufBody [0x4D, 0x61, 0x6E]) ?req"
  have b: "body ?r = BufBody [0x4D, 0x61, 0x6E]" by (simp add: mk_response_def)
  have w: "withContent (buildHarConfig ex_options)" by (simp add: buildHarConfig_def ex_options_def)
  have t: "base64_encode [0x4D, 0x61, 0x6E :: byte] = ''TWFu''"
    by (simp add: sextet_char_def base64_alphabet_def)
  have d: "base64_decode ''TWFu'' = [0x4D, 0x61, 0x6E]"
    using base64_roundtrip[of "[0x4D, 0x61, 0x6E]"] by (simp only: t)
  have c: "content_text (content (entry_response (buildHarEntry ex_env ?req None (Some ?r) (buildHarConfig ex_options)))) = Some ''TWFu''"
    using w by (simp add: buildHarEntry_def buildHarResponse_def buildHarContent_def Let_def mk_response_def
        sextet_char_def base64_alphabet_def)
  show ?thesis
    using binary_body_base64_roundtrip[OF b w, of ex_env ?req None] b w c d by simp
qed

end
